theory Spec2Isabelle
  imports Complex_Main "HOL-Library.Word"
begin

unbundle bit_operations_syntax

section \<open>The pentacube wireframe renderer (main/lvgl_demo_ui.c)\<close>

text \<open>
  A shallow embedding of the renderer. C \<open>int\<close> values on which the program does
  arithmetic that can leave the 32-bit range (the random seed, the projected screen
  coordinates) are \<open>32 word\<close>, read as two's complement by \<open>sint\<close>. Vertex
  indices and tick counters, which are only compared, copied and incremented by one,
  are \<open>int\<close>. Process-wide variables are the fields of one state record that every
  function takes and returns.
\<close>

subsection \<open>Constants\<close>

definition BASE_SIZE :: int where "BASE_SIZE = 8"
definition FRAME_COUNT :: int where "FRAME_COUNT = 32"
definition MAX_EDGE_SET :: int where "MAX_EDGE_SET = 256"
definition PENTACUBE_COUNT :: int where "PENTACUBE_COUNT = 29"

text \<open>C's \<open>%\<close> on \<open>int\<close>: the remainder of the division that truncates towards zero.\<close>

definition c_mod :: "int \<Rightarrow> int \<Rightarrow> int" where
  "c_mod a b = sgn a * (\<bar>a\<bar> mod \<bar>b\<bar>)"

subsection \<open>Pseudo-random sequence generator\<close>

text \<open>
  \<open>simple_rand\<close> keeps its seed in a function-static variable, initially 12345. The model
  takes the seed and returns the value together with the new seed.
\<close>

definition simple_rand :: "32 word \<Rightarrow> 32 word \<times> 32 word" where
  "simple_rand seed =
     (let seed' = (seed * 1103515245 + 12345) AND 0x7fffffff in (seed', seed'))"

definition random_pentacube :: "32 word \<Rightarrow> int \<times> 32 word" where
  "random_pentacube seed =
     (case simple_rand seed of (r, seed') \<Rightarrow> (c_mod (sint r) PENTACUBE_COUNT, seed'))"

subsection \<open>Floating-point values\<close>

text \<open>
  A C \<open>float\<close> is modelled by the real number it denotes: finite values only, NaN and
  the infinities are not represented. A float operation is the exact operation followed
  by rounding to the float format; the rounding operator \<open>rnd\<close> is a parameter of the
  model, the first argument of every function that computes with floats. The constants
  0, 1, 8, 15, 180, 200 and 255 are representable exactly and written as they are;
  \<open>0.6f\<close>, \<open>0.05f\<close> and \<open>0.9f\<close> are the roundings of 3/5, 1/20 and 9/10.

  \<open>rounding rnd\<close> collects what the properties below use of a rounding to nearest: it is
  monotone, it maps a representable value to itself, and 0 and 1 are representable.
\<close>

definition rounding :: "(real \<Rightarrow> real) \<Rightarrow> bool" where
  "rounding rnd \<longleftrightarrow> mono rnd \<and> (\<forall>x. rnd (rnd x) = rnd x) \<and> rnd 0 = 0 \<and> rnd 1 = 1"

subsection \<open>Animation state\<close>

text \<open>The file's static variables, and the static \<open>seed\<close> of \<open>simple_rand\<close>.\<close>

record anim_state =
  current_frame :: int
  z_position :: real
  x_offset :: real
  x_direction :: real
  direction_change_counter :: int
  rotation_axes :: "int \<times> int \<times> int"
  axis_change_counter :: int
  current_pentacube :: int
  next_pentacube :: int
  morphing_progress :: real
  is_morphing :: bool
  last_logged_pentacube :: int
  seed :: "32 word"

definition initial_state :: anim_state where
  "initial_state =
     \<lparr>current_frame = 0, z_position = 0, x_offset = 0, x_direction = 1,
      direction_change_counter = 0, rotation_axes = (1, 0, 0), axis_change_counter = 0,
      current_pentacube = 0, next_pentacube = 1, morphing_progress = 0,
      is_morphing = False, last_logged_pentacube = - 1, seed = 12345\<rparr>"

text \<open>
  \<open>update_animation_state\<close> is a sequence of six blocks; each is a function of its own
  here, in the order of the source.
\<close>

definition reverse_direction :: "anim_state \<Rightarrow> anim_state" where
  "reverse_direction s =
     (let s1 = s\<lparr>direction_change_counter := direction_change_counter s + 1\<rparr> in
      if direction_change_counter s1 > 8 then
        (case simple_rand (seed s1) of (r, seed') \<Rightarrow>
           (let s2 = s1\<lparr>seed := seed'\<rparr>;
                s3 = (if c_mod (sint r) 3 = 0 then s2\<lparr>x_direction := - x_direction s2\<rparr> else s2)
            in s3\<lparr>direction_change_counter := 0\<rparr>))
      else s1)"

definition move_lateral :: "(real \<Rightarrow> real) \<Rightarrow> anim_state \<Rightarrow> anim_state" where
  "move_lateral rnd s =
     (let s1 = s\<lparr>x_offset := rnd (x_offset s + rnd (x_direction s * rnd (3 / 5)))\<rparr> in
      if x_offset s1 > 15 then s1\<lparr>x_offset := 15, x_direction := - 1\<rparr>
      else if x_offset s1 < - 15 then s1\<lparr>x_offset := - 15, x_direction := 1\<rparr>
      else s1)"

definition derive_depth :: "(real \<Rightarrow> real) \<Rightarrow> anim_state \<Rightarrow> anim_state" where
  "derive_depth rnd s =
     (let norm_x = rnd (\<bar>x_offset s\<bar> / 15);
          distance_from_center = rnd (norm_x * norm_x)
      in s\<lparr>z_position := rnd (distance_from_center * 200)\<rparr>)"

definition morph_trigger :: "anim_state \<Rightarrow> anim_state" where
  "morph_trigger s =
     (if z_position s > 180 \<and> \<not> is_morphing s then
        (case random_pentacube (seed s) of (r, seed') \<Rightarrow>
           s\<lparr>is_morphing := True, morphing_progress := 0,
             current_pentacube := next_pentacube s, next_pentacube := r,
             seed := seed', last_logged_pentacube := - 1\<rparr>)
      else s)"

definition morph_advance :: "(real \<Rightarrow> real) \<Rightarrow> anim_state \<Rightarrow> anim_state" where
  "morph_advance rnd s =
     (if is_morphing s then
        (let s1 = s\<lparr>morphing_progress := rnd (morphing_progress s + rnd (1 / 20))\<rparr> in
         if morphing_progress s1 \<ge> 1 then s1\<lparr>is_morphing := False, morphing_progress := 1\<rparr>
         else s1)
      else s)"

definition reselect_axes :: "anim_state \<Rightarrow> anim_state" where
  "reselect_axes s =
     (let s1 = s\<lparr>axis_change_counter := axis_change_counter s + 1\<rparr> in
      if axis_change_counter s1 > 16 then
        (case simple_rand (seed s1) of (r0, seed0) \<Rightarrow>
        (case simple_rand seed0 of (r1, seed1) \<Rightarrow>
        (case simple_rand seed1 of (r2, seed2) \<Rightarrow>
           s1\<lparr>rotation_axes := (c_mod (sint r0) 2, c_mod (sint r1) 2, c_mod (sint r2) 2),
              seed := seed2, axis_change_counter := 0\<rparr>)))
      else s1)"

definition update_animation_state :: "(real \<Rightarrow> real) \<Rightarrow> anim_state \<Rightarrow> anim_state" where
  "update_animation_state rnd s =
     reselect_axes (morph_advance rnd (morph_trigger
       (derive_depth rnd (move_lateral rnd (reverse_direction s)))))"

text \<open>
  The state in which the morph block of a tick is entered, and whether that tick starts
  a morph.
\<close>

definition before_morph :: "(real \<Rightarrow> real) \<Rightarrow> anim_state \<Rightarrow> anim_state" where
  "before_morph rnd s = derive_depth rnd (move_lateral rnd (reverse_direction s))"

definition morph_starts :: "(real \<Rightarrow> real) \<Rightarrow> anim_state \<Rightarrow> bool" where
  "morph_starts rnd s \<longleftrightarrow> z_position (before_morph rnd s) > 180 \<and> \<not> is_morphing s"

subsection \<open>Mesh table and array accesses\<close>

text \<open>
  \<open>pentacube_data_t\<close> of main/pentacubes.h. The arrays behind its pointers are lists; the
  table \<open>pentacube_data\<close> itself (main/pentacubes.c, generated) is a parameter \<open>db\<close> of the
  functions that read it.
\<close>

record pentacube_data_t =
  vertices :: "real list"
  vertex_count :: int
  edges :: "int list"
  edge_count :: int
  face_vertices :: "int list"
  face_vertex_counts :: "int list"
  face_count :: int
  name :: string

text \<open>
  C does not check an index. A read or write outside the array is undefined behaviour;
  the model stops there with \<open>Out_of_bounds\<close>. \<open>Not_a_number\<close> is the float 0/0.
\<close>

datatype fault = Out_of_bounds | Not_a_number

definition rd :: "'a list \<Rightarrow> int \<Rightarrow> fault + 'a" where
  "rd xs i = (if 0 \<le> i \<and> i < int (length xs) then Inr (xs ! nat i) else Inl Out_of_bounds)"

definition wr :: "'a list \<Rightarrow> int \<Rightarrow> 'a \<Rightarrow> fault + 'a list" where
  "wr xs i x = (if 0 \<le> i \<and> i < int (length xs) then Inr (xs[nat i := x]) else Inl Out_of_bounds)"

text \<open>\<open>verts[i]\<close> of the vertex array cast to \<open>float (*)[3]\<close>: the floats 3i, 3i+1, 3i+2.\<close>

definition read_vertex :: "real list \<Rightarrow> int \<Rightarrow> fault + real \<times> real \<times> real" where
  "read_vertex verts i =
     (case rd verts (i * 3) of Inl f \<Rightarrow> Inl f | Inr x \<Rightarrow>
     (case rd verts (i * 3 + 1) of Inl f \<Rightarrow> Inl f | Inr y \<Rightarrow>
     (case rd verts (i * 3 + 2) of Inl f \<Rightarrow> Inl f | Inr z \<Rightarrow> Inr (x, y, z))))"

subsection \<open>Startup\<close>

function sum_x_loop :: "(real \<Rightarrow> real) \<Rightarrow> real list \<Rightarrow> int \<Rightarrow> int \<Rightarrow> real \<Rightarrow> fault + real" where
  "sum_x_loop rnd verts n i sum_x =
     (if i < n then
        (case rd verts (i * 3) of Inl f \<Rightarrow> Inl f
         | Inr x \<Rightarrow> sum_x_loop rnd verts n (i + 1) (rnd (sum_x + x)))
      else Inr sum_x)"
  by pat_completeness auto
termination
  by (relation "measure (\<lambda>(rnd, verts, n, i, sum_x). nat (n - i))") auto

text \<open>
  \<open>sum_x / vertex_count\<close>: with no vertex the sum is 0 and the quotient 0/0 is NaN.
\<close>

definition get_pentacube_center_x ::
  "(real \<Rightarrow> real) \<Rightarrow> pentacube_data_t list \<Rightarrow> int \<Rightarrow> fault + real" where
  "get_pentacube_center_x rnd db pentacube_idx =
     (case rd db pentacube_idx of Inl f \<Rightarrow> Inl f | Inr p \<Rightarrow>
     (case sum_x_loop rnd (vertices p) (vertex_count p) 0 0 of Inl f \<Rightarrow> Inl f | Inr sum_x \<Rightarrow>
        if vertex_count p = 0 then Inl Not_a_number
        else Inr (rnd (sum_x / rnd (of_int (vertex_count p))))))"

text \<open>
  The assignments of \<open>example_lvgl_demo_ui\<close> to the animation state, before it draws the
  first frame.
\<close>

definition startup_state ::
  "(real \<Rightarrow> real) \<Rightarrow> pentacube_data_t list \<Rightarrow> anim_state \<Rightarrow> fault + anim_state" where
  "startup_state rnd db s =
     (case random_pentacube (seed s) of (c, seed1) \<Rightarrow>
     (case random_pentacube seed1 of (nx, seed2) \<Rightarrow>
     (case get_pentacube_center_x rnd db c of Inl f \<Rightarrow> Inl f | Inr cx \<Rightarrow>
        Inr (s\<lparr>current_pentacube := c, next_pentacube := nx, seed := seed2,
               x_offset := rnd (- cx * of_int BASE_SIZE)\<rparr>))))"

subsection \<open>Visibility and the visible edge set\<close>

text \<open>
  \<open>is_face_visible_debug\<close> returns \<open>cross > 0\<close> and stores \<open>cross\<close> through \<open>cross_out\<close>; the
  model returns both. The arithmetic is that of 32-bit \<open>int\<close>.
\<close>

definition is_face_visible_debug ::
  "32 word \<Rightarrow> 32 word \<Rightarrow> 32 word \<Rightarrow> 32 word \<Rightarrow> 32 word \<Rightarrow> 32 word \<Rightarrow> bool \<times> 32 word" where
  "is_face_visible_debug screen_x0 screen_y0 screen_x1 screen_y1 screen_x2 screen_y2 =
     (let edge1_x = screen_x1 - screen_x0;
          edge1_y = screen_y1 - screen_y0;
          edge2_x = screen_x2 - screen_x0;
          edge2_y = screen_y2 - screen_y0;
          cross = edge1_x * edge2_y - edge1_y * edge2_x
      in (0 < sint cross, cross))"

record edge_t =
  v1 :: int
  v2 :: int

text \<open>The \<open>for\<close> loop of \<open>add_edge_to_set\<close>: is the pair among the first entries?\<close>

function edge_scan :: "edge_t list \<Rightarrow> int \<Rightarrow> int \<Rightarrow> int \<Rightarrow> int \<Rightarrow> fault + bool" where
  "edge_scan edge_set cnt a b i =
     (if i < cnt then
        (case rd edge_set i of Inl f \<Rightarrow> Inl f
         | Inr e \<Rightarrow> if v1 e = a \<and> v2 e = b then Inr True else edge_scan edge_set cnt a b (i + 1))
      else Inr False)"
  by pat_completeness auto
termination
  by (relation "measure (\<lambda>(edge_set, cnt, a, b, i). nat (cnt - i))") auto

text \<open>
  \<open>add_edge_to_set\<close> returns its \<open>bool\<close> with the array and the count it leaves
  (\<open>*edge_count\<close>).
\<close>

definition add_edge_to_set ::
  "edge_t list \<Rightarrow> int \<Rightarrow> int \<Rightarrow> int \<Rightarrow> fault + bool \<times> edge_t list \<times> int" where
  "add_edge_to_set edge_set cnt va vb =
     (if cnt \<ge> MAX_EDGE_SET then Inr (False, edge_set, cnt)
      else
        (let a = (if va > vb then vb else va);
             b = (if va > vb then va else vb)
         in (case edge_scan edge_set cnt a b 0 of Inl f \<Rightarrow> Inl f
             | Inr found \<Rightarrow>
                 if found then Inr (True, edge_set, cnt)
                 else (case wr edge_set cnt \<lparr>v1 = a, v2 = b\<rparr> of Inl f \<Rightarrow> Inl f
                       | Inr edge_set' \<Rightarrow> Inr (True, edge_set', cnt + 1)))))"

text \<open>A sequence of insertions, each on the set the one before left.\<close>

fun add_edges :: "edge_t list \<Rightarrow> int \<Rightarrow> (int \<times> int) list \<Rightarrow> fault + edge_t list \<times> int" where
  "add_edges edge_set cnt [] = Inr (edge_set, cnt)"
| "add_edges edge_set cnt ((va, vb) # ps) =
     (case add_edge_to_set edge_set cnt va vb of Inl f \<Rightarrow> Inl f
      | Inr (_, edge_set', cnt') \<Rightarrow> add_edges edge_set' cnt' ps)"

text \<open>The number of entries of the set for the unordered pair \<open>{a, b}\<close>.\<close>

definition entries_for :: "edge_t list \<Rightarrow> int \<Rightarrow> int \<Rightarrow> int \<Rightarrow> nat" where
  "entries_for edge_set cnt a b =
     length (filter (\<lambda>e. (v1 e = a \<and> v2 e = b) \<or> (v1 e = b \<and> v2 e = a))
               (take (nat cnt) edge_set))"

text \<open>
  What holds of the set a frame builds: the array has \<open>MAX_EDGE_SET\<close> entries, the count
  is within it, and the entries in use are canonical (smaller index first) and distinct.
\<close>

definition edge_set_ok :: "edge_t list \<Rightarrow> int \<Rightarrow> bool" where
  "edge_set_ok edge_set cnt \<longleftrightarrow>
     int (length edge_set) = MAX_EDGE_SET \<and> 0 \<le> cnt \<and> cnt \<le> MAX_EDGE_SET
     \<and> list_all (\<lambda>e. v1 e \<le> v2 e) (take (nat cnt) edge_set)
     \<and> distinct (take (nat cnt) edge_set)"

subsection \<open>The culling renderer (main/lvgl_demo_ui.c)\<close>

text \<open>
  Centering, \<open>rotate_point\<close> and \<open>project_point\<close> compute with \<open>cosf\<close> and \<open>sinf\<close>; they are
  not modelled. Their composition, from the animation state and a vertex to its screen
  coordinates, is the parameter \<open>proj\<close>.
\<close>

type_synonym projection = "anim_state \<Rightarrow> real \<times> real \<times> real \<Rightarrow> 32 word \<times> 32 word"

text \<open>The vertex loop: \<open>screen_coords\<close> receives \<open>sx, sy\<close> of vertex \<open>i\<close> at \<open>2i, 2i+1\<close>.\<close>

function project_vertices ::
  "(real \<times> real \<times> real \<Rightarrow> 32 word \<times> 32 word) \<Rightarrow> real list \<Rightarrow> int \<Rightarrow> int \<Rightarrow> 32 word list
     \<Rightarrow> fault + 32 word list" where
  "project_vertices pr verts n i screen_coords =
     (if i < n then
        (case read_vertex verts i of Inl f \<Rightarrow> Inl f
         | Inr v \<Rightarrow> project_vertices pr verts n (i + 1) (screen_coords @ [fst (pr v), snd (pr v)]))
      else Inr screen_coords)"
  by pat_completeness auto
termination
  by (relation "measure (\<lambda>(pr, verts, n, i, screen_coords). nat (n - i))") auto

text \<open>The screen coordinates of the first three vertices of the face that starts at \<open>fvi\<close>.\<close>

definition face_triangle ::
  "int list \<Rightarrow> 32 word list \<Rightarrow> int
     \<Rightarrow> fault + (32 word \<times> 32 word) \<times> (32 word \<times> 32 word) \<times> (32 word \<times> 32 word)" where
  "face_triangle fv screen_coords fvi =
     (case rd fv fvi of Inl f \<Rightarrow> Inl f | Inr v0_idx \<Rightarrow>
     (case rd fv (fvi + 1) of Inl f \<Rightarrow> Inl f | Inr v1_idx \<Rightarrow>
     (case rd fv (fvi + 2) of Inl f \<Rightarrow> Inl f | Inr v2_idx \<Rightarrow>
     (case rd screen_coords (v0_idx * 2) of Inl f \<Rightarrow> Inl f | Inr sx0 \<Rightarrow>
     (case rd screen_coords (v0_idx * 2 + 1) of Inl f \<Rightarrow> Inl f | Inr sy0 \<Rightarrow>
     (case rd screen_coords (v1_idx * 2) of Inl f \<Rightarrow> Inl f | Inr sx1 \<Rightarrow>
     (case rd screen_coords (v1_idx * 2 + 1) of Inl f \<Rightarrow> Inl f | Inr sy1 \<Rightarrow>
     (case rd screen_coords (v2_idx * 2) of Inl f \<Rightarrow> Inl f | Inr sx2 \<Rightarrow>
     (case rd screen_coords (v2_idx * 2 + 1) of Inl f \<Rightarrow> Inl f | Inr sy2 \<Rightarrow>
        Inr ((sx0, sy0), (sx1, sy1), (sx2, sy2)))))))))))"

text \<open>The walk round a visible face: each consecutive pair, the last with the first.\<close>

function add_face_edges ::
  "int list \<Rightarrow> int \<Rightarrow> int \<Rightarrow> edge_t list \<Rightarrow> int \<Rightarrow> int \<Rightarrow> fault + edge_t list \<times> int" where
  "add_face_edges fv fvi fvc edge_set cnt i =
     (if i < fvc then
        (case rd fv (fvi + i) of Inl f \<Rightarrow> Inl f | Inr va \<Rightarrow>
        (case rd fv (fvi + c_mod (i + 1) fvc) of Inl f \<Rightarrow> Inl f | Inr vb \<Rightarrow>
        (case add_edge_to_set edge_set cnt va vb of Inl f \<Rightarrow> Inl f
         | Inr (_, edge_set', cnt') \<Rightarrow> add_face_edges fv fvi fvc edge_set' cnt' (i + 1))))
      else Inr (edge_set, cnt))"
  by pat_completeness auto
termination
  by (relation "measure (\<lambda>(fv, fvi, fvc, edge_set, cnt, i). nat (fvc - i))") auto

record cull_state =
  visible_edges :: "edge_t list"
  visible_edge_count :: int
  face_vert_idx :: int
  visible_faces :: int
  total_faces_checked :: int

text \<open>One iteration of the face loop.\<close>

definition cull_face ::
  "pentacube_data_t \<Rightarrow> 32 word list \<Rightarrow> cull_state \<Rightarrow> int \<Rightarrow> fault + cull_state" where
  "cull_face p screen_coords st face_idx =
     (case rd (face_vertex_counts p) face_idx of Inl f \<Rightarrow> Inl f | Inr face_vert_count \<Rightarrow>
     (case face_triangle (face_vertices p) screen_coords (face_vert_idx st) of Inl f \<Rightarrow> Inl f
      | Inr ((sx0, sy0), (sx1, sy1), (sx2, sy2)) \<Rightarrow>
        (let visible = fst (is_face_visible_debug sx0 sy0 sx1 sy1 sx2 sy2);
             st1 = st\<lparr>total_faces_checked := total_faces_checked st + 1\<rparr>
         in if visible then
              (case add_face_edges (face_vertices p) (face_vert_idx st1) face_vert_count
                      (visible_edges st1) (visible_edge_count st1) 0 of
                 Inl f \<Rightarrow> Inl f
               | Inr (edge_set', cnt') \<Rightarrow>
                   Inr (st1\<lparr>visible_faces := visible_faces st1 + 1,
                             visible_edges := edge_set', visible_edge_count := cnt',
                             face_vert_idx := face_vert_idx st1 + face_vert_count\<rparr>))
            else Inr (st1\<lparr>face_vert_idx := face_vert_idx st1 + face_vert_count\<rparr>))))"

function cull_faces ::
  "pentacube_data_t \<Rightarrow> 32 word list \<Rightarrow> cull_state \<Rightarrow> int \<Rightarrow> fault + cull_state" where
  "cull_faces p screen_coords st face_idx =
     (if face_idx < face_count p then
        (case cull_face p screen_coords st face_idx of Inl f \<Rightarrow> Inl f
         | Inr st' \<Rightarrow> cull_faces p screen_coords st' (face_idx + 1))
      else Inr st)"
  by pat_completeness auto
termination
  by (relation "measure (\<lambda>(p, screen_coords, st, face_idx). nat (face_count p - face_idx))") auto

text \<open>
  A call of \<open>lv_canvas_draw_line\<close>: the two end points and the opacity of the line
  descriptor (colour black and width 1 are fixed).
\<close>

record line_t =
  line_x1 :: "32 word"
  line_y1 :: "32 word"
  line_x2 :: "32 word"
  line_y2 :: "32 word"
  line_opa :: "8 word"

text \<open>
  LVGL's \<open>LV_OPA_COVER\<close> is 255 and \<open>lv_opa_t\<close> is \<open>uint8_t\<close> (lvgl.h, not part of this
  repository). The conversion of a float to it truncates towards zero.
\<close>

definition LV_OPA_COVER :: real where "LV_OPA_COVER = 255"

definition float_to_opa :: "real \<Rightarrow> 8 word" where
  "float_to_opa x = word_of_int (if 0 \<le> x then \<lfloor>x\<rfloor> else \<lceil>x\<rceil>)"

function draw_visible_edges ::
  "32 word list \<Rightarrow> 8 word \<Rightarrow> edge_t list \<Rightarrow> int \<Rightarrow> int \<Rightarrow> fault + line_t list" where
  "draw_visible_edges screen_coords opacity edge_set cnt i =
     (if i < cnt then
        (case rd edge_set i of Inl f \<Rightarrow> Inl f | Inr e \<Rightarrow>
        (case rd screen_coords (v1 e * 2) of Inl f \<Rightarrow> Inl f | Inr x1 \<Rightarrow>
        (case rd screen_coords (v1 e * 2 + 1) of Inl f \<Rightarrow> Inl f | Inr y1 \<Rightarrow>
        (case rd screen_coords (v2 e * 2) of Inl f \<Rightarrow> Inl f | Inr x2 \<Rightarrow>
        (case rd screen_coords (v2 e * 2 + 1) of Inl f \<Rightarrow> Inl f | Inr y2 \<Rightarrow>
        (case draw_visible_edges screen_coords opacity edge_set cnt (i + 1) of Inl f \<Rightarrow> Inl f
         | Inr ls \<Rightarrow>
             Inr (\<lparr>line_x1 = x1, line_y1 = y1, line_x2 = x2, line_y2 = y2,
                    line_opa = opacity\<rparr> # ls)))))))
      else Inr [])"
  by pat_completeness auto
termination
  by (relation "measure (\<lambda>(screen_coords, opacity, edge_set, cnt, i). nat (cnt - i))") auto

text \<open>
  What a frame puts on the display: the label text and the lines, in the order drawn.
  The diagnostic \<open>printf\<close>s of this path are not modelled; \<open>last_logged_pentacube\<close>, which
  guards one of them, is.
\<close>

record frame_t =
  frame_label :: string
  frame_opacity :: "8 word"
  frame_lines :: "line_t list"

text \<open>
  The array \<open>visible_edges\<close> comes from \<open>lv_mem_alloc\<close> with \<open>MAX_EDGE_SET\<close> entries of
  unspecified content; the model fills it with the pair (0, 0). Entries at or beyond
  the count are written before they are read.
\<close>

definition fresh_edge_set :: "edge_t list" where
  "fresh_edge_set = replicate (nat MAX_EDGE_SET) \<lparr>v1 = 0, v2 = 0\<rparr>"

text \<open>The state in which \<open>draw_pentacube_frame\<close> enters its face loop.\<close>

definition cull_start :: cull_state where
  "cull_start =
     \<lparr>visible_edges = fresh_edge_set, visible_edge_count = 0, face_vert_idx = 0,
      visible_faces = 0, total_faces_checked = 0\<rparr>"

definition draw_pentacube_frame ::
  "(real \<Rightarrow> real) \<Rightarrow> projection \<Rightarrow> pentacube_data_t list \<Rightarrow> anim_state
     \<Rightarrow> fault + anim_state \<times> frame_t" where
  "draw_pentacube_frame rnd proj db s =
     (let s1 = update_animation_state rnd s in
      case rd db (current_pentacube s1) of Inl f \<Rightarrow> Inl f | Inr p \<Rightarrow>
        (let opacity = float_to_opa (rnd (LV_OPA_COVER * morphing_progress s1)) in
         case project_vertices (proj s1) (vertices p) (vertex_count p) 0 [] of Inl f \<Rightarrow> Inl f
         | Inr screen_coords \<Rightarrow>
         (case cull_faces p screen_coords cull_start 0 of Inl f \<Rightarrow> Inl f
          | Inr st \<Rightarrow>
          (case draw_visible_edges screen_coords opacity (visible_edges st)
                  (visible_edge_count st) 0 of Inl f \<Rightarrow> Inl f
           | Inr ls \<Rightarrow>
               Inr (if morphing_progress s1 > rnd (9 / 10)
                       \<and> current_pentacube s1 \<noteq> last_logged_pentacube s1
                    then s1\<lparr>last_logged_pentacube := current_pentacube s1\<rparr> else s1,
                    \<lparr>frame_label = name p, frame_opacity = opacity, frame_lines = ls\<rparr>)))))"

definition animation_timer_cb ::
  "(real \<Rightarrow> real) \<Rightarrow> projection \<Rightarrow> pentacube_data_t list \<Rightarrow> anim_state
     \<Rightarrow> fault + anim_state \<times> frame_t" where
  "animation_timer_cb rnd proj db s =
     (case draw_pentacube_frame rnd proj db s of Inl f \<Rightarrow> Inl f
      | Inr (s', fr) \<Rightarrow> Inr (s'\<lparr>current_frame := c_mod (current_frame s' + 1) FRAME_COUNT\<rparr>, fr))"

definition example_lvgl_demo_ui ::
  "(real \<Rightarrow> real) \<Rightarrow> projection \<Rightarrow> pentacube_data_t list \<Rightarrow> anim_state
     \<Rightarrow> fault + anim_state \<times> frame_t" where
  "example_lvgl_demo_ui rnd proj db s =
     (case startup_state rnd db s of Inl f \<Rightarrow> Inl f
      | Inr s0 \<Rightarrow> draw_pentacube_frame rnd proj db s0)"

text \<open>
  The timer: \<open>n\<close> callbacks one after the other, with the frames they draw. A morph-free
  run is one in which no callback starts a morph.
\<close>

fun run_timer ::
  "(real \<Rightarrow> real) \<Rightarrow> projection \<Rightarrow> pentacube_data_t list \<Rightarrow> nat \<Rightarrow> anim_state
     \<Rightarrow> fault + anim_state \<times> frame_t list" where
  "run_timer rnd proj db 0 s = Inr (s, [])"
| "run_timer rnd proj db (Suc n) s =
     (case animation_timer_cb rnd proj db s of Inl f \<Rightarrow> Inl f
      | Inr (s', fr) \<Rightarrow>
        (case run_timer rnd proj db n s' of Inl f \<Rightarrow> Inl f
         | Inr (s'', frs) \<Rightarrow> Inr (s'', fr # frs)))"

fun morph_free ::
  "(real \<Rightarrow> real) \<Rightarrow> projection \<Rightarrow> pentacube_data_t list \<Rightarrow> nat \<Rightarrow> anim_state \<Rightarrow> bool" where
  "morph_free rnd proj db 0 s = True"
| "morph_free rnd proj db (Suc n) s =
     (\<not> morph_starts rnd s \<and>
      (case animation_timer_cb rnd proj db s of Inl f \<Rightarrow> True
       | Inr (s', fr) \<Rightarrow> morph_free rnd proj db n s'))"

subsection \<open>The renderer without culling (the earlier version of the file)\<close>

text \<open>
  This \<open>draw_pentacube_frame\<close> draws the mesh's own edge list. Its output is the sequence
  of its \<open>printf\<close> and \<open>lv_canvas_draw_line\<close> calls; the loop ends with the number of lines
  drawn, or with a fault.
\<close>

datatype fb_event =
  Invalid_vertex_index int int int int string
| Draw_line line_t

text \<open>The bounds check of the loop.\<close>

definition invalid_vertex_index :: "pentacube_data_t \<Rightarrow> int \<Rightarrow> int \<Rightarrow> bool" where
  "invalid_vertex_index p v1_idx v2_idx \<longleftrightarrow>
     v1_idx \<ge> vertex_count p \<or> v2_idx \<ge> vertex_count p"

function draw_all_edges ::
  "(real \<times> real \<times> real \<Rightarrow> 32 word \<times> 32 word) \<Rightarrow> pentacube_data_t \<Rightarrow> 8 word \<Rightarrow> int \<Rightarrow> int
     \<Rightarrow> fb_event list \<times> (fault + int)" where
  "draw_all_edges pr p opacity edge_idx lines_drawn =
     (if edge_idx < edge_count p then
        (case rd (edges p) (edge_idx * 2) of Inl f \<Rightarrow> ([], Inl f) | Inr v1_idx \<Rightarrow>
        (case rd (edges p) (edge_idx * 2 + 1) of Inl f \<Rightarrow> ([], Inl f) | Inr v2_idx \<Rightarrow>
           if invalid_vertex_index p v1_idx v2_idx then
             (case draw_all_edges pr p opacity (edge_idx + 1) lines_drawn of (evs, r) \<Rightarrow>
                (Invalid_vertex_index edge_idx v1_idx v2_idx (vertex_count p) (name p) # evs, r))
           else
             (case read_vertex (vertices p) v1_idx of Inl f \<Rightarrow> ([], Inl f) | Inr a \<Rightarrow>
             (case read_vertex (vertices p) v2_idx of Inl f \<Rightarrow> ([], Inl f) | Inr b \<Rightarrow>
             (case draw_all_edges pr p opacity (edge_idx + 1) (lines_drawn + 1) of (evs, r) \<Rightarrow>
                (Draw_line \<lparr>line_x1 = fst (pr a), line_y1 = snd (pr a),
                            line_x2 = fst (pr b), line_y2 = snd (pr b),
                            line_opa = opacity\<rparr> # evs, r))))))
      else ([], Inr lines_drawn))"
  by pat_completeness auto
termination
  by (relation "measure (\<lambda>(pr, p, opacity, edge_idx, lines_drawn). nat (edge_count p - edge_idx))")
    auto

definition draw_pentacube_frame_unculled ::
  "(real \<Rightarrow> real) \<Rightarrow> projection \<Rightarrow> pentacube_data_t list \<Rightarrow> anim_state
     \<Rightarrow> fault + anim_state \<times> string \<times> fb_event list \<times> (fault + int)" where
  "draw_pentacube_frame_unculled rnd proj db s =
     (let s1 = update_animation_state rnd s in
      case rd db (current_pentacube s1) of Inl f \<Rightarrow> Inl f | Inr p \<Rightarrow>
        (let opacity = float_to_opa (rnd (LV_OPA_COVER * morphing_progress s1));
             out = draw_all_edges (proj s1) p opacity 0 0
         in Inr (if morphing_progress s1 > rnd (9 / 10)
                    \<and> current_pentacube s1 \<noteq> last_logged_pentacube s1
                 then s1\<lparr>last_logged_pentacube := current_pentacube s1\<rparr> else s1,
                 name p, fst out, snd out)))"

subsection \<open>Notions used to state the properties\<close>

text \<open>
  The lateral offset a tick computes before it clamps, and the morph progress a tick
  computes before it clamps.
\<close>

definition moved_offset :: "(real \<Rightarrow> real) \<Rightarrow> anim_state \<Rightarrow> real" where
  "moved_offset rnd s =
     rnd (x_offset (reverse_direction s) + rnd (x_direction (reverse_direction s) * rnd (3 / 5)))"

definition advanced_progress :: "(real \<Rightarrow> real) \<Rightarrow> anim_state \<Rightarrow> real" where
  "advanced_progress rnd s = rnd (morphing_progress s + rnd (1 / 20))"

text \<open>The morph progress is a float between 0 and 1.\<close>

definition progress_ok :: "(real \<Rightarrow> real) \<Rightarrow> anim_state \<Rightarrow> bool" where
  "progress_ok rnd s \<longleftrightarrow>
     0 \<le> morphing_progress s \<and> morphing_progress s \<le> 1
     \<and> rnd (morphing_progress s) = morphing_progress s"

text \<open>The canonical entry for an unordered pair: the smaller index first.\<close>

definition canon :: "int \<Rightarrow> int \<Rightarrow> edge_t" where
  "canon a b = \<lparr>v1 = min a b, v2 = max a b\<rparr>"

text \<open>
  The cross product \<open>(v1 - v0) \<times> (v2 - v0)\<close> over the integers, and the range of
  coordinates in which 32-bit arithmetic computes it without overflow.
\<close>

definition cross2d :: "int \<Rightarrow> int \<Rightarrow> int \<Rightarrow> int \<Rightarrow> int \<Rightarrow> int \<Rightarrow> int" where
  "cross2d x0 y0 x1 y1 x2 y2 = (x1 - x0) * (y2 - y0) - (y1 - y0) * (x2 - x0)"

definition coord_ok :: "32 word \<Rightarrow> bool" where
  "coord_ok c \<longleftrightarrow> - 16383 \<le> sint c \<and> sint c \<le> 16383"

text \<open>
  For the renderer without culling: vertex \<open>i\<close> of a mesh, what the loop emits for edge
  \<open>k\<close>, whether edge \<open>k\<close> passes the bounds check, and a mesh whose arrays have the sizes
  its counts announce and whose edge indices are not negative.
\<close>

definition vertex_at :: "pentacube_data_t \<Rightarrow> int \<Rightarrow> real \<times> real \<times> real" where
  "vertex_at p i =
     (vertices p ! nat (i * 3), vertices p ! nat (i * 3 + 1), vertices p ! nat (i * 3 + 2))"

definition edge_event ::
  "(real \<times> real \<times> real \<Rightarrow> 32 word \<times> 32 word) \<Rightarrow> pentacube_data_t \<Rightarrow> 8 word \<Rightarrow> int
     \<Rightarrow> fb_event" where
  "edge_event pr p opacity k =
     (let a = edges p ! nat (k * 2); b = edges p ! nat (k * 2 + 1) in
      if invalid_vertex_index p a b
      then Invalid_vertex_index k a b (vertex_count p) (name p)
      else Draw_line \<lparr>line_x1 = fst (pr (vertex_at p a)), line_y1 = snd (pr (vertex_at p a)),
                      line_x2 = fst (pr (vertex_at p b)), line_y2 = snd (pr (vertex_at p b)),
                      line_opa = opacity\<rparr>)"

definition edge_in_range :: "pentacube_data_t \<Rightarrow> int \<Rightarrow> bool" where
  "edge_in_range p k \<longleftrightarrow>
     \<not> invalid_vertex_index p (edges p ! nat (k * 2)) (edges p ! nat (k * 2 + 1))"

definition edge_list_ok :: "pentacube_data_t \<Rightarrow> bool" where
  "edge_list_ok p \<longleftrightarrow>
     int (length (edges p)) = edge_count p * 2
     \<and> int (length (vertices p)) = vertex_count p * 3
     \<and> list_all (\<lambda>v. 0 \<le> v) (edges p)"

subsection \<open>Example inputs\<close>

text \<open>
  The straight pentacube, five unit cubes along x, with its eight corners; a triangle; a
  mesh whose first edge names the vertex count as an index; a mesh whose only edge has
  a negative index.
\<close>

definition bar_mesh :: pentacube_data_t where
  "bar_mesh =
     \<lparr>vertices = [0,0,0, 5,0,0, 5,1,0, 0,1,0, 0,0,1, 5,0,1, 5,1,1, 0,1,1],
      vertex_count = 8,
      edges = [0,1, 1,2, 2,3, 3,0, 4,5, 5,6, 6,7, 7,4, 0,4, 1,5, 2,6, 3,7],
      edge_count = 12,
      face_vertices = [0,3,2,1, 4,5,6,7, 0,1,5,4, 1,2,6,5, 2,3,7,6, 3,0,4,7],
      face_vertex_counts = [4,4,4,4,4,4],
      face_count = 6,
      name = ''I''\<rparr>"

definition tri_mesh :: pentacube_data_t where
  "tri_mesh =
     \<lparr>vertices = [0,0,0, 3,0,0, 0,3,0],
      vertex_count = 3,
      edges = [0,1, 1,2, 2,0],
      edge_count = 3,
      face_vertices = [0,1,2],
      face_vertex_counts = [3],
      face_count = 1,
      name = ''T''\<rparr>"

definition off_by_one_mesh :: pentacube_data_t where
  "off_by_one_mesh =
     \<lparr>vertices = [0, 0, 0, 1, 0, 0], vertex_count = 2, edges = [0, 2, 0, 1], edge_count = 2,
      face_vertices = [], face_vertex_counts = [], face_count = 0, name = ''O''\<rparr>"

definition neg_mesh :: pentacube_data_t where
  "neg_mesh =
     \<lparr>vertices = [0, 0, 0], vertex_count = 1, edges = [- 1, 0], edge_count = 1,
      face_vertices = [], face_vertex_counts = [], face_count = 0, name = ''N''\<rparr>"

text \<open>A projection that drops z and scales by 8, whatever the animation state.\<close>

definition flat_proj :: projection where
  "flat_proj s v = (word_of_int \<lfloor>8 * fst v\<rfloor>, word_of_int \<lfloor>8 * fst (snd v)\<rfloor>)"

text \<open>
  With a table of 29 triangles: the state \<open>example_lvgl_demo_ui\<close> sets up before its first
  frame, and the frame drawn while the morph progress is 0.
\<close>

definition startup_s0 :: anim_state where
  "startup_s0 =
     initial_state\<lparr>current_pentacube := 13, next_pentacube := 9, seed := 654583775,
                    x_offset := - 8\<rparr>"

definition tri_frame :: frame_t where
  "tri_frame =
     \<lparr>frame_label = ''T'', frame_opacity = 0,
      frame_lines =
        [\<lparr>line_x1 = 0, line_y1 = 0, line_x2 = 24, line_y2 = 0, line_opa = 0\<rparr>,
         \<lparr>line_x1 = 24, line_y1 = 0, line_x2 = 0, line_y2 = 24, line_opa = 0\<rparr>,
         \<lparr>line_x1 = 0, line_y1 = 0, line_x2 = 0, line_y2 = 24, line_opa = 0\<rparr>]\<rparr>"

section \<open>Properties\<close>

declare sum_x_loop.simps [simp del] edge_scan.simps [simp del]
  project_vertices.simps [simp del] add_face_edges.simps [simp del]
  cull_faces.simps [simp del] draw_visible_edges.simps [simp del]
  draw_all_edges.simps [simp del]

lemmas anim_defs = update_animation_state_def reselect_axes_def morph_advance_def
  morph_trigger_def derive_depth_def move_lateral_def reverse_direction_def Let_def
  initial_state_def

lemmas frame_defs = draw_pentacube_frame_def example_lvgl_demo_ui_def animation_timer_cb_def
  startup_state_def random_pentacube_def simple_rand_def c_mod_def get_pentacube_center_x_def
  sum_x_loop.simps rd_def wr_def read_vertex_def project_vertices.simps cull_faces.simps
  cull_start_def cull_face_def face_triangle_def is_face_visible_debug_def add_face_edges.simps
  add_edge_to_set_def edge_scan.simps draw_visible_edges.simps fresh_edge_set_def
  float_to_opa_def LV_OPA_COVER_def MAX_EDGE_SET_def BASE_SIZE_def PENTACUBE_COUNT_def
  FRAME_COUNT_def tri_mesh_def flat_proj_def

lemma c_mod_nonneg: "0 \<le> a \<Longrightarrow> c_mod a b = a mod \<bar>b\<bar>"
  by (cases "a = 0") (simp_all add: c_mod_def)

lemma rd_Inr: "rd xs i = Inr x \<Longrightarrow> 0 \<le> i \<and> i < int (length xs) \<and> x = xs ! nat i"
  by (auto simp: rd_def split: if_splits)

subsection \<open>The random generator\<close>

lemma mask31_take_bit: "(w::32 word) AND 0x7fffffff = take_bit 31 w"
  by (simp add: take_bit_eq_mask mask_eq_exp_minus_1)

lemma sint_take_bit31: "sint (take_bit 31 (w::32 word)) = uint w mod 2 ^ 31"
proof -
  have "uint (take_bit 31 w) = take_bit 31 (uint w)"
    by (simp add: unsigned_take_bit_eq)
  then have "uint (take_bit 31 w) = uint w mod 2 ^ 31"
    by (simp only: take_bit_eq_mod)
  moreover have "0 \<le> uint w mod 2 ^ 31" "uint w mod 2 ^ 31 < 2 ^ 31" by simp_all
  ultimately show ?thesis
    by (simp add: sint_uint signed_take_bit_int_eq_self)
qed

lemma uint_mod31: "uint (w::32 word) mod 2 ^ 31 = sint w mod 2 ^ 31"
proof -
  have "uint w = sint w mod 2 ^ 32"
    by (simp add: uint_sint take_bit_eq_mod)
  then have "uint w mod 2 ^ 31 = (sint w mod 2 ^ 32) mod 2 ^ 31" by simp
  also have "\<dots> = sint w mod 2 ^ 31"
    by (rule mod_mod_cancel) simp
  finally show ?thesis .
qed

lemma lcg_step_mod31:
  "uint ((w::32 word) * 1103515245 + 12345) mod 2 ^ 31 = (sint w * 1103515245 + 12345) mod 2 ^ 31"
proof -
  have "uint (w * 1103515245 + 12345) = (uint w * 1103515245 + 12345) mod 2 ^ 32"
    by (simp add: uint_word_ariths mod_simps)
  then have "uint (w * 1103515245 + 12345) mod 2 ^ 31
      = ((uint w * 1103515245 + 12345) mod 2 ^ 32) mod 2 ^ 31"
    by simp
  also have "\<dots> = (uint w * 1103515245 + 12345) mod 2 ^ 31"
    by (rule mod_mod_cancel) simp
  also have "\<dots> = ((uint w mod 2 ^ 31) * 1103515245 + 12345) mod 2 ^ 31"
    by (metis mod_add_left_eq mod_mult_left_eq)
  also have "\<dots> = ((sint w mod 2 ^ 31) * 1103515245 + 12345) mod 2 ^ 31"
    by (simp only: uint_mod31)
  also have "\<dots> = (sint w * 1103515245 + 12345) mod 2 ^ 31"
    by (metis mod_add_left_eq mod_mult_left_eq)
  finally show ?thesis .
qed

lemma simple_rand_sint:
  "sint (fst (simple_rand sd)) = (sint sd * 1103515245 + 12345) mod 2 ^ 31"
  unfolding simple_rand_def Let_def fst_conv mask31_take_bit sint_take_bit31
  by (rule lcg_step_mod31)

lemma simple_rand_range:
  "0 \<le> sint (fst (simple_rand sd))" "sint (fst (simple_rand sd)) < 2 ^ 31"
  unfolding simple_rand_sint by simp_all

text \<open>
  C8. \<open>simple_rand\<close> is a function of the seed: the value it returns is the new seed, it is
  the linear-congruential step \<open>(seed * 1103515245 + 12345) mod 2^31\<close> of the old one
  (read as a signed integer), and so lies in \<open>[0, 2^31)\<close>. \<open>random_pentacube\<close> returns
  that value modulo \<open>PENTACUBE_COUNT\<close>, an index in \<open>[0, 29)\<close>, and leaves the seed
  \<open>simple_rand\<close> left.
\<close>

theorem simple_rand_contract:
  "fst (simple_rand sd) = snd (simple_rand sd)
   \<and> sint (fst (simple_rand sd)) = (sint sd * 1103515245 + 12345) mod 2 ^ 31
   \<and> 0 \<le> sint (fst (simple_rand sd)) \<and> sint (fst (simple_rand sd)) < 2 ^ 31
   \<and> fst (random_pentacube sd) = sint (fst (simple_rand sd)) mod 29
   \<and> snd (random_pentacube sd) = snd (simple_rand sd)
   \<and> 0 \<le> fst (random_pentacube sd) \<and> fst (random_pentacube sd) < 29
   \<and> PENTACUBE_COUNT = 29"
proof -
  have r: "sint (fst (simple_rand sd)) = (sint sd * 1103515245 + 12345) mod 2 ^ 31"
    by (rule simple_rand_sint)
  have nn: "0 \<le> sint (fst (simple_rand sd))" and lt: "sint (fst (simple_rand sd)) < 2 ^ 31"
    by (rule simple_rand_range)+
  have p: "fst (random_pentacube sd) = sint (fst (simple_rand sd)) mod 29"
    using nn by (simp add: random_pentacube_def split_beta c_mod_nonneg PENTACUBE_COUNT_def)
  have q: "snd (random_pentacube sd) = snd (simple_rand sd)"
    by (simp add: random_pentacube_def split_beta)
  have fs: "fst (simple_rand sd) = snd (simple_rand sd)"
    by (simp add: simple_rand_def Let_def)
  show ?thesis using r nn lt p q fs by (simp add: PENTACUBE_COUNT_def)
qed

subsection \<open>The animation state machine\<close>

lemma x_offset_update:
  "x_offset (update_animation_state rnd s) = x_offset (move_lateral rnd (reverse_direction s))"
  by (simp add: update_animation_state_def reselect_axes_def morph_advance_def
      morph_trigger_def derive_depth_def Let_def split_beta)

lemma x_direction_update:
  "x_direction (update_animation_state rnd s)
     = x_direction (move_lateral rnd (reverse_direction s))"
  by (simp add: update_animation_state_def reselect_axes_def morph_advance_def
      morph_trigger_def derive_depth_def Let_def split_beta)

lemma update_offset_bounds:
  "- 15 \<le> x_offset (update_animation_state rnd s)"
  "x_offset (update_animation_state rnd s) \<le> 15"
  unfolding x_offset_update by (simp_all add: move_lateral_def Let_def)

lemma before_morph_fields:
  "is_morphing (before_morph rnd s) = is_morphing s"
  "morphing_progress (before_morph rnd s) = morphing_progress s"
  "current_pentacube (before_morph rnd s) = current_pentacube s"
  "next_pentacube (before_morph rnd s) = next_pentacube s"
  by (simp_all add: before_morph_def derive_depth_def move_lateral_def reverse_direction_def
      Let_def split_beta)

lemma update_via_before:
  "update_animation_state rnd s
     = reselect_axes (morph_advance rnd (morph_trigger (before_morph rnd s)))"
  by (simp add: update_animation_state_def before_morph_def)

lemma reselect_fields:
  "is_morphing (reselect_axes s) = is_morphing s"
  "morphing_progress (reselect_axes s) = morphing_progress s"
  "current_pentacube (reselect_axes s) = current_pentacube s"
  by (simp_all add: reselect_axes_def Let_def split_beta)

lemma update_while_morphing:
  assumes "is_morphing s"
  shows "morphing_progress (update_animation_state rnd s)
           = (if advanced_progress rnd s \<ge> 1 then 1 else advanced_progress rnd s)"
    and "is_morphing (update_animation_state rnd s) \<longleftrightarrow> \<not> advanced_progress rnd s \<ge> 1"
    and "current_pentacube (update_animation_state rnd s) = current_pentacube s"
  using assms
  by (simp_all add: update_via_before reselect_fields morph_advance_def morph_trigger_def
      before_morph_fields advanced_progress_def Let_def)

lemma update_steady:
  assumes "\<not> is_morphing s" "\<not> morph_starts rnd s"
  shows "morphing_progress (update_animation_state rnd s) = morphing_progress s"
    and "\<not> is_morphing (update_animation_state rnd s)"
    and "current_pentacube (update_animation_state rnd s) = current_pentacube s"
  using assms
  by (simp_all add: update_via_before reselect_fields morph_advance_def morph_trigger_def
      before_morph_fields morph_starts_def Let_def)

lemma trigger_resets:
  assumes "morph_starts rnd s"
  shows "morphing_progress (morph_trigger (before_morph rnd s)) = 0"
    and "is_morphing (morph_trigger (before_morph rnd s))"
    and "current_pentacube (morph_trigger (before_morph rnd s)) = next_pentacube s"
  using assms
  by (simp_all add: morph_trigger_def before_morph_fields morph_starts_def split_beta)

lemma update_on_trigger:
  assumes "morph_starts rnd s"
  shows "morphing_progress (update_animation_state rnd s)
           = (if rnd (rnd (1 / 20)) \<ge> 1 then 1 else rnd (rnd (1 / 20)))"
  using assms
  by (simp add: update_via_before reselect_fields morph_advance_def morph_trigger_def
      before_morph_fields morph_starts_def Let_def split_beta)

lemma rounding_increment_nonneg:
  assumes "rounding rnd"
  shows "0 \<le> rnd (1 / 20)"
proof -
  from assms have m: "mono rnd" and z: "rnd 0 = 0" by (simp_all add: rounding_def)
  show ?thesis using monoD [OF m, of 0 "1 / 20"] z by simp
qed

lemma rounding_step_ge:
  assumes "rounding rnd" "rnd p = p"
  shows "p \<le> rnd (p + rnd (1 / 20))"
proof -
  from assms(1) have m: "mono rnd" by (simp add: rounding_def)
  have "rnd p \<le> rnd (p + rnd (1 / 20))"
    using rounding_increment_nonneg [OF assms(1)] by (intro monoD [OF m]) simp
  with assms(2) show ?thesis by simp
qed

lemma rounding_idem: "rounding rnd \<Longrightarrow> rnd (rnd x) = rnd x"
  by (simp add: rounding_def)

text \<open>
  The morph progress stays a float between 0 and 1: at the start, through the startup
  assignments and through every tick.
\<close>

lemma progress_ok_initial: "rounding rnd \<Longrightarrow> progress_ok rnd initial_state"
  by (simp add: progress_ok_def initial_state_def rounding_def)

lemma progress_ok_update:
  assumes r: "rounding rnd" and ok: "progress_ok rnd s"
  shows "progress_ok rnd (update_animation_state rnd s)"
proof -
  from r have one: "rnd 1 = 1" and zero: "rnd 0 = 0" by (simp_all add: rounding_def)
  from ok have p: "0 \<le> morphing_progress s" "morphing_progress s \<le> 1"
    "rnd (morphing_progress s) = morphing_progress s"
    by (simp_all add: progress_ok_def)
  show ?thesis
  proof (cases "is_morphing s")
    case True
    have "morphing_progress s \<le> advanced_progress rnd s"
      unfolding advanced_progress_def by (rule rounding_step_ge [OF r p(3)])
    moreover have "rnd (advanced_progress rnd s) = advanced_progress rnd s"
      unfolding advanced_progress_def by (rule rounding_idem [OF r])
    ultimately show ?thesis using p one
      by (simp add: progress_ok_def update_while_morphing(1) [OF True])
  next
    case False
    show ?thesis
    proof (cases "morph_starts rnd s")
      case True
      have "0 \<le> rnd (rnd (1 / 20))"
        using rounding_increment_nonneg [OF r] by (simp add: rounding_idem [OF r])
      then show ?thesis using one
        by (simp add: progress_ok_def update_on_trigger [OF True] rounding_idem [OF r])
    next
      case nostart: False
      show ?thesis using p
        by (simp add: progress_ok_def update_steady(1) [OF False nostart])
    qed
  qed
qed

subsection \<open>Frames\<close>

lemma draw_visible_edges_opa:
  "draw_visible_edges sc opacity es cnt i = Inr ls \<Longrightarrow> \<forall>l\<in>set ls. line_opa l = opacity"
proof (induction sc opacity es cnt i arbitrary: ls rule: draw_visible_edges.induct)
  case (1 sc opacity es cnt i)
  show ?case using "1.prems" "1.IH"
    by (subst (asm) draw_visible_edges.simps) (fastforce split: if_splits sum.splits)
qed

lemma draw_frame_state:
  assumes "draw_pentacube_frame rnd proj db s = Inr (s', fr)"
  shows "s' = update_animation_state rnd s
         \<or> s' = (update_animation_state rnd s)
                 \<lparr>last_logged_pentacube := current_pentacube (update_animation_state rnd s)\<rparr>"
  using assms
  by (auto simp: draw_pentacube_frame_def Let_def split: sum.splits if_splits)

lemma draw_frame_fields:
  assumes "draw_pentacube_frame rnd proj db s = Inr (s', fr)"
  shows "x_offset s' = x_offset (update_animation_state rnd s)"
    and "morphing_progress s' = morphing_progress (update_animation_state rnd s)"
    and "is_morphing s' = is_morphing (update_animation_state rnd s)"
    and "current_pentacube s' = current_pentacube (update_animation_state rnd s)"
  using draw_frame_state [OF assms] by auto

lemma draw_frame_opacity:
  assumes "draw_pentacube_frame rnd proj db s = Inr (s', fr)"
  shows "frame_opacity fr
           = float_to_opa (rnd (LV_OPA_COVER * morphing_progress (update_animation_state rnd s)))"
    and "\<forall>l\<in>set (frame_lines fr). line_opa l = frame_opacity fr"
  using assms
  by (auto simp: draw_pentacube_frame_def Let_def split: sum.splits if_splits
      dest: draw_visible_edges_opa)

lemma draw_frame_label:
  assumes "draw_pentacube_frame rnd proj db s = Inr (s', fr)"
  shows "frame_label fr = name (db ! nat (current_pentacube (update_animation_state rnd s)))"
  using assms
  by (auto simp: draw_pentacube_frame_def Let_def split: sum.splits if_splits dest: rd_Inr)

lemma timer_cb_fields:
  assumes "animation_timer_cb rnd proj db s = Inr (s', fr)"
  shows "x_offset s' = x_offset (update_animation_state rnd s)"
    and "morphing_progress s' = morphing_progress (update_animation_state rnd s)"
    and "is_morphing s' = is_morphing (update_animation_state rnd s)"
    and "current_pentacube s' = current_pentacube (update_animation_state rnd s)"
  using assms
  by (auto simp: animation_timer_cb_def split: sum.splits dest: draw_frame_fields)

lemma float_to_opa_0: "float_to_opa 0 = 0"
  by (simp add: float_to_opa_def)

lemma run_offset_bounds:
  "- 15 \<le> x_offset s \<and> x_offset s \<le> 15 \<Longrightarrow> run_timer rnd proj db n s = Inr (sn, frs)
     \<Longrightarrow> - 15 \<le> x_offset sn \<and> x_offset sn \<le> 15"
proof (induction n arbitrary: s sn frs)
  case 0
  then show ?case by simp
next
  case (Suc n)
  from Suc.prems(2) obtain s' fr frs' where
    cb: "animation_timer_cb rnd proj db s = Inr (s', fr)"
    and run: "run_timer rnd proj db n s' = Inr (sn, frs')"
    by (auto split: sum.splits)
  have "- 15 \<le> x_offset s' \<and> x_offset s' \<le> 15"
    using timer_cb_fields(1) [OF cb] update_offset_bounds [of rnd s] by simp
  then show ?case using run by (rule Suc.IH)
qed

lemma progress_ok_run:
  assumes r: "rounding rnd"
  shows "progress_ok rnd s \<Longrightarrow> run_timer rnd proj db n s = Inr (sn, frs) \<Longrightarrow> progress_ok rnd sn"
proof (induction n arbitrary: s sn frs)
  case 0
  then show ?case by simp
next
  case (Suc n)
  from Suc.prems(2) obtain s' fr frs' where
    cb: "animation_timer_cb rnd proj db s = Inr (s', fr)"
    and run: "run_timer rnd proj db n s' = Inr (sn, frs')"
    by (auto split: sum.splits)
  have "progress_ok rnd s'"
    using timer_cb_fields(2) [OF cb] progress_ok_update [OF r Suc.prems(1)]
    by (simp add: progress_ok_def)
  then show ?case using run by (rule Suc.IH)
qed

lemma steady_frame:
  assumes z: "rnd 0 = 0"
    and st: "morphing_progress s = 0" "\<not> is_morphing s" "\<not> morph_starts rnd s"
    and dr: "draw_pentacube_frame rnd proj db s = Inr (s', fr)"
  shows "morphing_progress s' = 0" "\<not> is_morphing s'"
    "current_pentacube s' = current_pentacube s"
    "frame_label fr = name (db ! nat (current_pentacube s))"
    "frame_opacity fr = 0" "\<forall>l\<in>set (frame_lines fr). line_opa l = 0"
proof -
  note up = update_steady [OF st(2,3)]
  show "morphing_progress s' = 0" "\<not> is_morphing s'"
    "current_pentacube s' = current_pentacube s"
    using draw_frame_fields [OF dr] up st(1) by simp_all
  show "frame_label fr = name (db ! nat (current_pentacube s))"
    using draw_frame_label [OF dr] up by simp
  show o: "frame_opacity fr = 0"
    using draw_frame_opacity(1) [OF dr] up st(1) z by (simp add: float_to_opa_0)
  show "\<forall>l\<in>set (frame_lines fr). line_opa l = 0"
    using draw_frame_opacity(2) [OF dr] o by simp
qed

lemma steady_run:
  assumes z: "rnd 0 = 0"
  shows "morphing_progress s = 0 \<Longrightarrow> \<not> is_morphing s
     \<Longrightarrow> run_timer rnd proj db n s = Inr (sn, frs) \<Longrightarrow> morph_free rnd proj db n s
     \<Longrightarrow> morphing_progress sn = 0 \<and> \<not> is_morphing sn
         \<and> current_pentacube sn = current_pentacube s
         \<and> (\<forall>fr\<in>set frs. frame_label fr = name (db ! nat (current_pentacube s))
               \<and> frame_opacity fr = 0 \<and> (\<forall>l\<in>set (frame_lines fr). line_opa l = 0))"
proof (induction n arbitrary: s sn frs)
  case 0
  then show ?case by simp
next
  case (Suc n)
  from Suc.prems(3) obtain s' fr frs' where
    cb: "animation_timer_cb rnd proj db s = Inr (s', fr)"
    and run: "run_timer rnd proj db n s' = Inr (sn, frs')"
    and frs: "frs = fr # frs'"
    by (auto split: sum.splits)
  from Suc.prems(4) cb have ns: "\<not> morph_starts rnd s" and mf: "morph_free rnd proj db n s'"
    by simp_all
  from cb obtain s'' where dr: "draw_pentacube_frame rnd proj db s = Inr (s'', fr)"
    and s': "s' = s''\<lparr>current_frame := c_mod (current_frame s'' + 1) FRAME_COUNT\<rparr>"
    by (auto simp: animation_timer_cb_def split: sum.splits)
  note f = steady_frame [OF z Suc.prems(1,2) ns dr]
  from f s' have s'0: "morphing_progress s' = 0" "\<not> is_morphing s'"
    "current_pentacube s' = current_pentacube s" by simp_all
  from Suc.IH [OF s'0(1,2) run mf] s'0(3) f(4,5,6) frs show ?case by simp
qed

lemma startup_fields:
  assumes "startup_state rnd db s = Inr s0"
  shows "morphing_progress s0 = morphing_progress s" "is_morphing s0 = is_morphing s"
  using assms by (auto simp: startup_state_def split_beta split: sum.splits)

text \<open>
  Startup and the first two frames on a table of 29 triangles, with exact arithmetic.
\<close>

lemma startup_tri:
  "startup_state id (replicate 29 tri_mesh) initial_state = Inr startup_s0"
  by (simp add: frame_defs anim_defs startup_s0_def)

lemma first_frame_tri:
  "draw_pentacube_frame id flat_proj (replicate 29 tri_mesh) startup_s0
     = Inr (update_animation_state id startup_s0, tri_frame)"
  by (simp add: frame_defs anim_defs startup_s0_def tri_frame_def)

lemma second_frame_tri:
  "animation_timer_cb id flat_proj (replicate 29 tri_mesh) (update_animation_state id startup_s0)
     = Inr ((update_animation_state id (update_animation_state id startup_s0))
              \<lparr>current_frame := 1\<rparr>,
            tri_frame)"
  by (simp add: frame_defs anim_defs startup_s0_def tri_frame_def)

lemma no_morph_tri:
  "\<not> morph_starts id startup_s0" "\<not> morph_starts id (update_animation_state id startup_s0)"
  by (simp_all add: morph_starts_def before_morph_def anim_defs startup_s0_def)

lemma example_tri:
  "example_lvgl_demo_ui id flat_proj (replicate 29 tri_mesh) initial_state
     = Inr (update_animation_state id startup_s0, tri_frame)"
  by (simp add: example_lvgl_demo_ui_def startup_tri first_frame_tri)

lemma run_tri:
  "run_timer id flat_proj (replicate 29 tri_mesh) 1 (update_animation_state id startup_s0)
     = Inr ((update_animation_state id (update_animation_state id startup_s0))
              \<lparr>current_frame := 1\<rparr>,
            [tri_frame])"
  by (simp add: second_frame_tri)

text \<open>
  C4 (as amended). After every \<open>update_animation_state\<close>, whatever the offset was before,
  the lateral offset lies in \<open>[-15, 15]\<close>: when the offset the tick computes is above 15
  it becomes exactly 15 and the direction -1; when it is below -15 it becomes exactly
  -15 and the direction 1; otherwise it is the computed offset. So the bound holds in the
  state \<open>example_lvgl_demo_ui\<close> leaves, which has drawn one frame, and in every state
  the timer callbacks reach from it. The offset that \<open>example_lvgl_demo_ui\<close> assigns from
  the centroid before that first frame is not bounded.
\<close>

theorem x_offset_bounded_after_update:
  "- 15 \<le> x_offset (update_animation_state rnd s) \<and> x_offset (update_animation_state rnd s) \<le> 15
   \<and> (moved_offset rnd s > 15 \<longrightarrow>
        x_offset (update_animation_state rnd s) = 15
        \<and> x_direction (update_animation_state rnd s) = - 1)
   \<and> (moved_offset rnd s < - 15 \<longrightarrow>
        x_offset (update_animation_state rnd s) = - 15
        \<and> x_direction (update_animation_state rnd s) = 1)
   \<and> (- 15 \<le> moved_offset rnd s \<and> moved_offset rnd s \<le> 15 \<longrightarrow>
        x_offset (update_animation_state rnd s) = moved_offset rnd s)
   \<and> (example_lvgl_demo_ui rnd proj db s = Inr (s1, fr1)
        \<and> run_timer rnd proj db n s1 = Inr (sn, frs)
        \<longrightarrow> - 15 \<le> x_offset sn \<and> x_offset sn \<le> 15)"
proof -
  have a: "- 15 \<le> x_offset (update_animation_state rnd s)
   \<and> x_offset (update_animation_state rnd s) \<le> 15
   \<and> (moved_offset rnd s > 15 \<longrightarrow>
        x_offset (update_animation_state rnd s) = 15
        \<and> x_direction (update_animation_state rnd s) = - 1)
   \<and> (moved_offset rnd s < - 15 \<longrightarrow>
        x_offset (update_animation_state rnd s) = - 15
        \<and> x_direction (update_animation_state rnd s) = 1)
   \<and> (- 15 \<le> moved_offset rnd s \<and> moved_offset rnd s \<le> 15 \<longrightarrow>
        x_offset (update_animation_state rnd s) = moved_offset rnd s)"
    unfolding x_offset_update x_direction_update moved_offset_def
    by (simp add: move_lateral_def Let_def)
  have b: "- 15 \<le> x_offset sn \<and> x_offset sn \<le> 15"
    if ex: "example_lvgl_demo_ui rnd proj db s = Inr (s1, fr1)"
      and run: "run_timer rnd proj db n s1 = Inr (sn, frs)"
  proof -
    from ex obtain s0 where "draw_pentacube_frame rnd proj db s0 = Inr (s1, fr1)"
      by (auto simp: example_lvgl_demo_ui_def split: sum.splits)
    then have "- 15 \<le> x_offset s1 \<and> x_offset s1 \<le> 15"
      using draw_frame_fields(1) [of rnd proj db s0 s1 fr1] update_offset_bounds [of rnd s0]
      by simp
    then show ?thesis using run by (rule run_offset_bounds)
  qed
  from a b show ?thesis by blast
qed

text \<open>
  The clamp at either bound, a tick inside the bounds, and the state after startup and
  one timer callback on a table of triangles.
\<close>

theorem x_offset_bounded_after_update_witness:
  "x_offset (update_animation_state id (initial_state\<lparr>x_offset := 149 / 10\<rparr>)) = 15
   \<and> x_direction (update_animation_state id (initial_state\<lparr>x_offset := 149 / 10\<rparr>)) = - 1
   \<and> x_offset (update_animation_state id
        (initial_state\<lparr>x_offset := - 20, x_direction := - 1\<rparr>)) = - 15
   \<and> x_direction (update_animation_state id
        (initial_state\<lparr>x_offset := - 20, x_direction := - 1\<rparr>)) = 1
   \<and> x_offset (update_animation_state id initial_state) = 3 / 5
   \<and> - 15 \<le> x_offset ((update_animation_state id (update_animation_state id startup_s0))
                         \<lparr>current_frame := 1\<rparr>)
   \<and> x_offset ((update_animation_state id (update_animation_state id startup_s0))
                 \<lparr>current_frame := 1\<rparr>) \<le> 15"
proof -
  have m1: "moved_offset id (initial_state\<lparr>x_offset := 149 / 10\<rparr>) > 15"
    by (simp add: moved_offset_def reverse_direction_def initial_state_def)
  have m2: "moved_offset id (initial_state\<lparr>x_offset := - 20, x_direction := - 1\<rparr>) < - 15"
    by (simp add: moved_offset_def reverse_direction_def initial_state_def)
  have m3: "moved_offset id initial_state = 3 / 5"
    by (simp add: moved_offset_def reverse_direction_def initial_state_def)
  from x_offset_bounded_after_update [of id "initial_state\<lparr>x_offset := 149 / 10\<rparr>"] m1
  have a: "x_offset (update_animation_state id (initial_state\<lparr>x_offset := 149 / 10\<rparr>)) = 15
   \<and> x_direction (update_animation_state id (initial_state\<lparr>x_offset := 149 / 10\<rparr>)) = - 1"
    by blast
  from x_offset_bounded_after_update
    [of id "initial_state\<lparr>x_offset := - 20, x_direction := - 1\<rparr>"] m2
  have b: "x_offset (update_animation_state id
        (initial_state\<lparr>x_offset := - 20, x_direction := - 1\<rparr>)) = - 15
   \<and> x_direction (update_animation_state id
        (initial_state\<lparr>x_offset := - 20, x_direction := - 1\<rparr>)) = 1"
    by blast
  from x_offset_bounded_after_update [of id initial_state] m3
  have c: "x_offset (update_animation_state id initial_state) = 3 / 5"
    by simp
  from x_offset_bounded_after_update [of id initial_state flat_proj "replicate 29 tri_mesh" _ _ 1]
    example_tri run_tri
  have d: "- 15 \<le> x_offset ((update_animation_state id (update_animation_state id startup_s0))
                             \<lparr>current_frame := 1\<rparr>)
   \<and> x_offset ((update_animation_state id (update_animation_state id startup_s0))
                 \<lparr>current_frame := 1\<rparr>) \<le> 15"
    by blast
  from a b c d show ?thesis by blast
qed

text \<open>
  C4 as stated fails at startup: with the straight pentacube as the initial mesh, whose
  vertex centroid has x = 2.5, \<open>example_lvgl_demo_ui\<close> sets the offset to -20 before it
  draws the first frame. All values in this computation are exact in binary floating
  point.
\<close>

theorem startup_offset_out_of_bounds:
  "(case startup_state id (replicate 29 bar_mesh) initial_state of
      Inl f \<Rightarrow> False | Inr s0 \<Rightarrow> x_offset s0 = - 20 \<and> x_offset s0 < - 15)"
  by (simp add: startup_state_def random_pentacube_def simple_rand_def c_mod_def
      get_pentacube_center_x_def sum_x_loop.simps rd_def bar_mesh_def initial_state_def
      BASE_SIZE_def PENTACUBE_COUNT_def)

text \<open>
  C5. While the morphing flag is set, a tick never decreases the morph progress and keeps
  it a float between 0 and 1; when the advanced progress reaches or exceeds 1 the
  progress is exactly 1 and the flag is cleared, otherwise the progress is the advanced
  progress and the flag stays. On the tick that starts a morph, the trigger block
  leaves the progress at exactly 0 with the flag set; the advance block of the same tick
  then adds the first increment, so that tick ends with the progress one increment
  above 0.
\<close>

theorem morphing_progress_monotone:
  assumes "rounding rnd"
  shows "(is_morphing s \<and> progress_ok rnd s \<longrightarrow>
            morphing_progress s \<le> morphing_progress (update_animation_state rnd s)
          \<and> progress_ok rnd (update_animation_state rnd s)
          \<and> (advanced_progress rnd s \<ge> 1 \<longrightarrow>
                morphing_progress (update_animation_state rnd s) = 1
              \<and> \<not> is_morphing (update_animation_state rnd s))
          \<and> (advanced_progress rnd s < 1 \<longrightarrow>
                morphing_progress (update_animation_state rnd s) = advanced_progress rnd s
              \<and> is_morphing (update_animation_state rnd s)))
       \<and> (morph_starts rnd t \<longrightarrow>
            morphing_progress (morph_trigger (before_morph rnd t)) = 0
          \<and> is_morphing (morph_trigger (before_morph rnd t))
          \<and> morphing_progress (update_animation_state rnd t) = min 1 (rnd (1 / 20)))"
proof (intro conjI impI)
  assume a: "is_morphing s \<and> progress_ok rnd s"
  then have m: "is_morphing s" and ok: "progress_ok rnd s" by simp_all
  from ok have p: "morphing_progress s \<le> 1" "rnd (morphing_progress s) = morphing_progress s"
    by (simp_all add: progress_ok_def)
  have ge: "morphing_progress s \<le> advanced_progress rnd s"
    unfolding advanced_progress_def by (rule rounding_step_ge [OF assms p(2)])
  from m p ge show "morphing_progress s \<le> morphing_progress (update_animation_state rnd s)"
    by (simp add: update_while_morphing)
  show "progress_ok rnd (update_animation_state rnd s)"
    by (rule progress_ok_update [OF assms ok])
  { assume "advanced_progress rnd s \<ge> 1"
    with m show "morphing_progress (update_animation_state rnd s) = 1"
      and "\<not> is_morphing (update_animation_state rnd s)"
      by (simp_all add: update_while_morphing) }
  { assume "advanced_progress rnd s < 1"
    with m show "morphing_progress (update_animation_state rnd s) = advanced_progress rnd s"
      and "is_morphing (update_animation_state rnd s)"
      by (simp_all add: update_while_morphing) }
next
  assume st: "morph_starts rnd t"
  then show "morphing_progress (morph_trigger (before_morph rnd t)) = 0"
    and "is_morphing (morph_trigger (before_morph rnd t))"
    by (rule trigger_resets)+
  show "morphing_progress (update_animation_state rnd t) = min 1 (rnd (1 / 20))"
    by (simp add: update_on_trigger [OF st] rounding_idem [OF assms] min_def)
qed

lemma rounding_id: "rounding id"
  by (simp add: rounding_def mono_def)

text \<open>
  With exact arithmetic: a tick from progress 1/2, the tick that completes a morph, and
  a tick that starts one.
\<close>

theorem morphing_progress_monotone_witness:
  "morphing_progress (update_animation_state id
       (initial_state\<lparr>is_morphing := True, morphing_progress := 1 / 2\<rparr>)) = 11 / 20
   \<and> is_morphing (update_animation_state id
       (initial_state\<lparr>is_morphing := True, morphing_progress := 1 / 2\<rparr>))
   \<and> morphing_progress (update_animation_state id
       (initial_state\<lparr>is_morphing := True, morphing_progress := 39 / 40\<rparr>)) = 1
   \<and> \<not> is_morphing (update_animation_state id
       (initial_state\<lparr>is_morphing := True, morphing_progress := 39 / 40\<rparr>))
   \<and> morphing_progress (morph_trigger (before_morph id
       (initial_state\<lparr>x_offset := 149 / 10, morphing_progress := 1\<rparr>))) = 0
   \<and> is_morphing (morph_trigger (before_morph id
       (initial_state\<lparr>x_offset := 149 / 10, morphing_progress := 1\<rparr>)))
   \<and> morphing_progress (update_animation_state id
       (initial_state\<lparr>x_offset := 149 / 10, morphing_progress := 1\<rparr>)) = 1 / 20"
proof -
  let ?s = "initial_state\<lparr>is_morphing := True, morphing_progress := 1 / 2\<rparr>"
  let ?s' = "initial_state\<lparr>is_morphing := True, morphing_progress := 39 / 40\<rparr>"
  let ?t = "initial_state\<lparr>x_offset := 149 / 10, morphing_progress := 1\<rparr>"
  have hs: "is_morphing ?s \<and> progress_ok id ?s"
    by (simp add: initial_state_def progress_ok_def)
  have hs': "is_morphing ?s' \<and> progress_ok id ?s'"
    by (simp add: initial_state_def progress_ok_def)
  have as: "advanced_progress id ?s = 11 / 20" "advanced_progress id ?s' \<ge> 1"
    by (simp_all add: advanced_progress_def initial_state_def)
  have ht: "morph_starts id ?t"
    by (simp add: morph_starts_def before_morph_def derive_depth_def move_lateral_def
        reverse_direction_def initial_state_def Let_def)
  from morphing_progress_monotone [OF rounding_id, of ?s ?t] hs as(1) ht
  have a: "morphing_progress (update_animation_state id ?s) = 11 / 20
      \<and> is_morphing (update_animation_state id ?s)
      \<and> morphing_progress (morph_trigger (before_morph id ?t)) = 0
      \<and> is_morphing (morph_trigger (before_morph id ?t))
      \<and> morphing_progress (update_animation_state id ?t) = 1 / 20"
    by simp
  from morphing_progress_monotone [OF rounding_id, of ?s' ?t] hs' as(2)
  have b: "morphing_progress (update_animation_state id ?s') = 1
      \<and> \<not> is_morphing (update_animation_state id ?s')"
    by blast
  from a b show ?thesis by blast
qed

lemma dcc_blocks:
  "direction_change_counter (reselect_axes s) = direction_change_counter s"
  "direction_change_counter (morph_advance rnd s) = direction_change_counter s"
  "direction_change_counter (morph_trigger s) = direction_change_counter s"
  "direction_change_counter (derive_depth rnd s) = direction_change_counter s"
  "direction_change_counter (move_lateral rnd s) = direction_change_counter s"
  by (simp_all add: reselect_axes_def morph_advance_def morph_trigger_def derive_depth_def
      move_lateral_def Let_def split_beta)

lemma dcc_update:
  "direction_change_counter (update_animation_state rnd s)
     = (if direction_change_counter s + 1 > 8 then 0 else direction_change_counter s + 1)"
  unfolding update_animation_state_def dcc_blocks
  by (simp add: reverse_direction_def Let_def split_beta)

lemma dcc_funpow:
  "direction_change_counter s = 0 \<Longrightarrow> k \<le> 8
     \<Longrightarrow> direction_change_counter ((update_animation_state rnd ^^ k) s) = int k"
  by (induction k) (simp_all add: dcc_update)

text \<open>
  C6 (as amended). Every tick increments the direction-reversal counter. When the
  incremented counter exceeds 8, the tick calls \<open>simple_rand\<close> once, negates the lateral
  direction if the value is a multiple of 3, and resets the counter to 0 whether or not
  it negated; otherwise it leaves seed and direction alone. From a counter of 0 the
  counter is \<open>k\<close> after \<open>k \<le> 8\<close> ticks and 0 after the ninth: the draw comes every 9 ticks.
\<close>

theorem direction_reversal_every_nine_ticks:
  "direction_change_counter (update_animation_state rnd s)
      = (if direction_change_counter s + 1 > 8 then 0 else direction_change_counter s + 1)
   \<and> (direction_change_counter s + 1 > 8 \<longrightarrow>
        seed (reverse_direction s) = snd (simple_rand (seed s))
        \<and> x_direction (reverse_direction s)
            = (if sint (fst (simple_rand (seed s))) mod 3 = 0
               then - x_direction s else x_direction s))
   \<and> (\<not> direction_change_counter s + 1 > 8 \<longrightarrow>
        seed (reverse_direction s) = seed s
        \<and> x_direction (reverse_direction s) = x_direction s)
   \<and> (direction_change_counter s = 0 \<longrightarrow>
        (\<forall>k\<le>8. direction_change_counter ((update_animation_state rnd ^^ k) s) = int k)
        \<and> direction_change_counter ((update_animation_state rnd ^^ 9) s) = 0)"
proof -
  have m: "c_mod (sint (fst (simple_rand (seed s)))) 3 = sint (fst (simple_rand (seed s))) mod 3"
    using simple_rand_range(1) [of "seed s"] by (simp add: c_mod_nonneg)
  have a: "direction_change_counter s + 1 > 8 \<longrightarrow>
        seed (reverse_direction s) = snd (simple_rand (seed s))
        \<and> x_direction (reverse_direction s)
            = (if sint (fst (simple_rand (seed s))) mod 3 = 0
               then - x_direction s else x_direction s)"
    using m by (simp add: reverse_direction_def Let_def split_beta)
  have b: "\<not> direction_change_counter s + 1 > 8 \<longrightarrow>
        seed (reverse_direction s) = seed s
        \<and> x_direction (reverse_direction s) = x_direction s"
    by (simp add: reverse_direction_def Let_def split_beta)
  have c: "direction_change_counter ((update_animation_state rnd ^^ 9) s) = 0"
    if "direction_change_counter s = 0"
  proof -
    have "direction_change_counter ((update_animation_state rnd ^^ 8) s) = 8"
      using dcc_funpow [OF that, of 8 rnd] by simp
    moreover have "(update_animation_state rnd ^^ 9) s
        = update_animation_state rnd ((update_animation_state rnd ^^ 8) s)"
      by (simp add: eval_nat_numeral)
    ultimately show ?thesis by (simp add: dcc_update)
  qed
  have d: "\<forall>k\<le>8. direction_change_counter ((update_animation_state rnd ^^ k) s) = int k"
    if "direction_change_counter s = 0"
    using dcc_funpow [OF that] by blast
  show ?thesis
    by (intro conjI impI) (use a b c d dcc_update [of rnd s] in blast)+
qed

text \<open>
  A tick that draws without negating (the value 1406932606 is 1 modulo 3), one that
  draws and negates (1103527590 is a multiple of 3), one that does not draw, and the
  counter over nine ticks from the initial state.
\<close>

theorem direction_reversal_every_nine_ticks_witness:
  "direction_change_counter
       (update_animation_state id (initial_state\<lparr>direction_change_counter := 8\<rparr>)) = 0
   \<and> seed (reverse_direction (initial_state\<lparr>direction_change_counter := 8\<rparr>)) = 1406932606
   \<and> x_direction (reverse_direction (initial_state\<lparr>direction_change_counter := 8\<rparr>)) = 1
   \<and> x_direction (reverse_direction
        (initial_state\<lparr>direction_change_counter := 8, seed := 1\<rparr>)) = - 1
   \<and> seed (reverse_direction initial_state) = 12345
   \<and> direction_change_counter ((update_animation_state id ^^ 8) initial_state) = 8
   \<and> direction_change_counter ((update_animation_state id ^^ 9) initial_state) = 0"
proof -
  let ?s = "initial_state\<lparr>direction_change_counter := 8\<rparr>"
  let ?u = "initial_state\<lparr>direction_change_counter := 8, seed := 1\<rparr>"
  have h: "direction_change_counter ?s + 1 > 8" "direction_change_counter ?u + 1 > 8"
    "\<not> direction_change_counter initial_state + 1 > 8"
    "direction_change_counter initial_state = 0"
    by (simp_all add: initial_state_def)
  have r: "simple_rand (seed ?s) = (1406932606, 1406932606)"
    "simple_rand (seed ?u) = (1103527590, 1103527590)"
    by (simp_all add: simple_rand_def initial_state_def)
  from direction_reversal_every_nine_ticks [of id ?s] h(1) r(1)
  have a: "direction_change_counter (update_animation_state id ?s) = 0
      \<and> seed (reverse_direction ?s) = 1406932606 \<and> x_direction (reverse_direction ?s) = 1"
    by (simp add: initial_state_def)
  from direction_reversal_every_nine_ticks [of id ?u] h(2) r(2)
  have b: "x_direction (reverse_direction ?u) = - 1"
    by (simp add: initial_state_def)
  from direction_reversal_every_nine_ticks [of id initial_state] h(3,4)
  have c: "seed (reverse_direction initial_state) = 12345
      \<and> direction_change_counter ((update_animation_state id ^^ 8) initial_state) = 8
      \<and> direction_change_counter ((update_animation_state id ^^ 9) initial_state) = 0"
    by (simp add: initial_state_def)
  from a b c show ?thesis by blast
qed

text \<open>
  C6 as stated fails: from the initial state, eight ticks leave the counter at 8 and the
  seed at its initial value 12345, so no draw has happened; the ninth tick draws (the
  seed becomes 1406932606) and resets the counter.
\<close>

theorem no_draw_within_eight_ticks:
  "direction_change_counter ((update_animation_state id ^^ 8) initial_state) = 8
   \<and> seed ((update_animation_state id ^^ 8) initial_state) = 12345
   \<and> direction_change_counter ((update_animation_state id ^^ 9) initial_state) = 0
   \<and> seed ((update_animation_state id ^^ 9) initial_state) = 1406932606"
  by (simp add: eval_nat_numeral anim_defs simple_rand_def c_mod_def)

text \<open>
  C9. The morph progress is 0 and the morphing flag clear at startup. As long as no tick
  has started a morph (neither the first frame, drawn by \<open>example_lvgl_demo_ui\<close>, nor any
  timer callback since), the progress is still exactly 0, the mesh is still the one
  chosen at startup, and every frame drawn so far carries that mesh's name, has opacity
  0, and has all its lines drawn with opacity 0.
\<close>

theorem first_shape_transparent:
  assumes "rnd 0 = 0"
    and "startup_state rnd db initial_state = Inr s0"
    and "draw_pentacube_frame rnd proj db s0 = Inr (s1, fr1)"
    and "run_timer rnd proj db n s1 = Inr (sn, frs)"
    and "\<not> morph_starts rnd s0" and "morph_free rnd proj db n s1"
  shows "example_lvgl_demo_ui rnd proj db initial_state = Inr (s1, fr1)
       \<and> morphing_progress s0 = 0 \<and> \<not> is_morphing s0
       \<and> morphing_progress sn = 0 \<and> \<not> is_morphing sn
       \<and> current_pentacube sn = current_pentacube s0
       \<and> (\<forall>fr\<in>set (fr1 # frs).
             frame_label fr = name (db ! nat (current_pentacube s0))
           \<and> frame_opacity fr = 0 \<and> (\<forall>l\<in>set (frame_lines fr). line_opa l = 0))"
proof -
  have s0: "morphing_progress s0 = 0" "\<not> is_morphing s0"
    using startup_fields [OF assms(2)] by (simp_all add: initial_state_def)
  note f = steady_frame [OF assms(1) s0 assms(5) assms(3)]
  note r = steady_run [OF assms(1) f(1,2) assms(4) assms(6)]
  have "example_lvgl_demo_ui rnd proj db initial_state = Inr (s1, fr1)"
    using assms(2,3) by (simp add: example_lvgl_demo_ui_def)
  with s0 f r show ?thesis by simp
qed

text \<open>
  On a table of 29 triangles, startup and one timer callback start no morph: both
  frames show the triangle's three lines with opacity 0.
\<close>

theorem first_shape_transparent_witness:
  "example_lvgl_demo_ui id flat_proj (replicate 29 tri_mesh) initial_state
      = Inr (update_animation_state id startup_s0, tri_frame)
   \<and> run_timer id flat_proj (replicate 29 tri_mesh) 1 (update_animation_state id startup_s0)
      = Inr ((update_animation_state id (update_animation_state id startup_s0))
               \<lparr>current_frame := 1\<rparr>,
             [tri_frame])
   \<and> morphing_progress
        ((update_animation_state id (update_animation_state id startup_s0))
           \<lparr>current_frame := 1\<rparr>) = 0
   \<and> frame_label tri_frame = name tri_mesh \<and> frame_opacity tri_frame = 0
   \<and> length (frame_lines tri_frame) = 3
   \<and> list_all (\<lambda>l. line_opa l = 0) (frame_lines tri_frame)"
proof -
  have z: "id (0::real) = 0" by simp
  have mf: "morph_free id flat_proj (replicate 29 tri_mesh) 1 (update_animation_state id startup_s0)"
    using no_morph_tri(2) by (simp add: second_frame_tri)
  from first_shape_transparent [OF z startup_tri first_frame_tri run_tri no_morph_tri(1) mf]
  have "morphing_progress
        ((update_animation_state id (update_animation_state id startup_s0))
           \<lparr>current_frame := 1\<rparr>) = 0
      \<and> frame_opacity tri_frame = 0
      \<and> list_all (\<lambda>l. line_opa l = 0) (frame_lines tri_frame)"
    by (simp add: list_all_iff)
  then show ?thesis using example_tri run_tri by (simp add: tri_frame_def tri_mesh_def)
qed

subsection \<open>The visible edge set\<close>

lemma edge_eq_iff: "(e::edge_t) = \<lparr>v1 = a, v2 = b\<rparr> \<longleftrightarrow> v1 e = a \<and> v2 e = b"
  by (cases e) simp

text \<open>
  On an array that holds at least \<open>cnt\<close> entries the linear search reads inside the array
  and finds the pair exactly when one of the entries from \<open>i\<close> on is the pair.
\<close>

lemma edge_scan_result:
  "0 \<le> i \<Longrightarrow> cnt \<le> int (length es)
     \<Longrightarrow> edge_scan es cnt a b i
         = Inr (\<exists>j. i \<le> j \<and> j < cnt \<and> es ! nat j = \<lparr>v1 = a, v2 = b\<rparr>)"
proof (induction es cnt a b i rule: edge_scan.induct)
  case (1 es cnt a b i)
  show ?case
  proof (cases "i < cnt")
    case False
    then show ?thesis by (subst edge_scan.simps) auto
  next
    case True
    with "1.prems" have r: "rd es i = Inr (es ! nat i)" by (simp add: rd_def)
    show ?thesis
    proof (cases "v1 (es ! nat i) = a \<and> v2 (es ! nat i) = b")
      case hit: True
      then have "es ! nat i = \<lparr>v1 = a, v2 = b\<rparr>" by (simp add: edge_eq_iff)
      with True have "\<exists>j. i \<le> j \<and> j < cnt \<and> es ! nat j = \<lparr>v1 = a, v2 = b\<rparr>" by auto
      moreover have "edge_scan es cnt a b i = Inr True"
        by (subst edge_scan.simps) (simp add: True r hit)
      ultimately show ?thesis by simp
    next
      case miss: False
      then have ne: "es ! nat i \<noteq> \<lparr>v1 = a, v2 = b\<rparr>" by (simp add: edge_eq_iff)
      have ih: "edge_scan es cnt a b (i + 1)
          = Inr (\<exists>j. i + 1 \<le> j \<and> j < cnt \<and> es ! nat j = \<lparr>v1 = a, v2 = b\<rparr>)"
        using "1.IH" [OF True r miss] "1.prems" by simp
      have "(\<exists>j. i + 1 \<le> j \<and> j < cnt \<and> es ! nat j = \<lparr>v1 = a, v2 = b\<rparr>)
          \<longleftrightarrow> (\<exists>j. i \<le> j \<and> j < cnt \<and> es ! nat j = \<lparr>v1 = a, v2 = b\<rparr>)"
      proof
        assume "\<exists>j. i + 1 \<le> j \<and> j < cnt \<and> es ! nat j = \<lparr>v1 = a, v2 = b\<rparr>"
        then obtain j where "i + 1 \<le> j" and j: "j < cnt" "es ! nat j = \<lparr>v1 = a, v2 = b\<rparr>"
          by blast
        then have "i \<le> j" by simp
        with j show "\<exists>j. i \<le> j \<and> j < cnt \<and> es ! nat j = \<lparr>v1 = a, v2 = b\<rparr>" by blast
      next
        assume "\<exists>j. i \<le> j \<and> j < cnt \<and> es ! nat j = \<lparr>v1 = a, v2 = b\<rparr>"
        then obtain j where j: "i \<le> j" "j < cnt" "es ! nat j = \<lparr>v1 = a, v2 = b\<rparr>" by blast
        with ne have "j \<noteq> i" by auto
        with j have "i + 1 \<le> j" by simp
        with j show "\<exists>j. i + 1 \<le> j \<and> j < cnt \<and> es ! nat j = \<lparr>v1 = a, v2 = b\<rparr>"
          by blast
      qed
      moreover have "edge_scan es cnt a b i = edge_scan es cnt a b (i + 1)"
        by (subst edge_scan.simps) (simp add: True r miss)
      ultimately show ?thesis using ih by simp
    qed
  qed
qed

lemma in_take_iff:
  assumes "0 \<le> cnt" "cnt \<le> int (length es)"
  shows "(\<exists>j. 0 \<le> j \<and> j < cnt \<and> es ! nat j = e) \<longleftrightarrow> e \<in> set (take (nat cnt) es)"
proof
  assume "\<exists>j. 0 \<le> j \<and> j < cnt \<and> es ! nat j = e"
  then obtain j where j: "0 \<le> j" "j < cnt" "es ! nat j = e" by blast
  with assms have "nat j < length (take (nat cnt) es)" by simp
  moreover from j have "take (nat cnt) es ! nat j = e" by simp
  ultimately show "e \<in> set (take (nat cnt) es)" by (metis nth_mem)
next
  assume "e \<in> set (take (nat cnt) es)"
  then obtain k where k: "k < length (take (nat cnt) es)" "take (nat cnt) es ! k = e"
    by (auto simp: in_set_conv_nth)
  then have "0 \<le> int k \<and> int k < cnt \<and> es ! nat (int k) = e" using assms by simp
  then show "\<exists>j. 0 \<le> j \<and> j < cnt \<and> es ! nat j = e" by blast
qed

text \<open>
  \<open>add_edge_to_set\<close> on an array of \<open>MAX_EDGE_SET\<close> entries never faults: it drops the pair
  when the set is full, leaves the set alone when the canonical pair is there, and
  otherwise writes the canonical pair at the count and increments the count.
\<close>

lemma add_edge_to_set_eq:
  assumes "int (length es) = MAX_EDGE_SET" "0 \<le> cnt"
  shows "add_edge_to_set es cnt a b =
     (if cnt \<ge> MAX_EDGE_SET then Inr (False, es, cnt)
      else if canon a b \<in> set (take (nat cnt) es) then Inr (True, es, cnt)
      else Inr (True, es[nat cnt := canon a b], cnt + 1))"
proof (cases "cnt \<ge> MAX_EDGE_SET")
  case True
  then show ?thesis by (simp add: add_edge_to_set_def)
next
  case False
  with assms have le: "cnt \<le> int (length es)" by simp
  have c: "\<lparr>v1 = (if a > b then b else a), v2 = (if a > b then a else b)\<rparr> = canon a b"
    by (simp add: canon_def min_def max_def)
  have sc: "edge_scan es cnt (if a > b then b else a) (if a > b then a else b) 0
      = Inr (canon a b \<in> set (take (nat cnt) es))"
    using edge_scan_result [OF _ le, of 0] in_take_iff [OF assms(2) le] c by simp
  have w: "wr es cnt (canon a b) = Inr (es[nat cnt := canon a b])"
    using False assms by (simp add: wr_def)
  show ?thesis using False sc w c
    by (simp add: add_edge_to_set_def Let_def)
qed

lemma add_edge_to_set_full:
  "add_edge_to_set es MAX_EDGE_SET a b = Inr (False, es, MAX_EDGE_SET)"
  by (simp add: add_edge_to_set_def)

lemma add_edge_to_set_step:
  assumes len: "int (length es) = MAX_EDGE_SET" and c: "0 \<le> cnt" "cnt \<le> MAX_EDGE_SET"
  shows "\<exists>r es' cnt'. add_edge_to_set es cnt a b = Inr (r, es', cnt')
           \<and> cnt \<le> cnt' \<and> cnt' \<le> MAX_EDGE_SET \<and> length es' = length es
           \<and> take (nat cnt) es' = take (nat cnt) es"
  using assms by (auto simp: add_edge_to_set_eq)

lemma add_edges_bounded:
  "int (length es) = MAX_EDGE_SET \<Longrightarrow> 0 \<le> cnt \<Longrightarrow> cnt \<le> MAX_EDGE_SET
     \<Longrightarrow> \<exists>es' cnt'. add_edges es cnt ps = Inr (es', cnt')
           \<and> cnt \<le> cnt' \<and> cnt' \<le> MAX_EDGE_SET \<and> length es' = length es
           \<and> take (nat cnt) es' = take (nat cnt) es"
proof (induction ps arbitrary: es cnt)
  case Nil
  then show ?case by simp
next
  case (Cons p ps)
  obtain a b where p: "p = (a, b)" by (cases p)
  from add_edge_to_set_step [OF Cons.prems, of a b] obtain r es1 cnt1 where
    st: "add_edge_to_set es cnt a b = Inr (r, es1, cnt1)"
    and b1: "cnt \<le> cnt1" "cnt1 \<le> MAX_EDGE_SET" "length es1 = length es"
    and t1: "take (nat cnt) es1 = take (nat cnt) es"
    by blast
  from b1 Cons.prems have pre: "int (length es1) = MAX_EDGE_SET" "0 \<le> cnt1" by simp_all
  from Cons.IH [OF pre b1(2)] obtain es' cnt' where
    r: "add_edges es1 cnt1 ps = Inr (es', cnt')"
    and b2: "cnt1 \<le> cnt'" "cnt' \<le> MAX_EDGE_SET" "length es' = length es1"
    and t2: "take (nat cnt1) es' = take (nat cnt1) es1"
    by blast
  have "take (nat cnt) es' = take (nat cnt) (take (nat cnt1) es')"
    using b1(1) by (simp add: min_def)
  also have "\<dots> = take (nat cnt) (take (nat cnt1) es1)" by (simp only: t2)
  also have "\<dots> = take (nat cnt) es1" using b1(1) by (simp add: min_def)
  finally have "take (nat cnt) es' = take (nat cnt) es" using t1 by simp
  with p st r b1 b2 show ?case by simp
qed

lemma add_edges_full:
  "add_edges es MAX_EDGE_SET ps = Inr (es, MAX_EDGE_SET)"
  by (induction ps) (auto simp: add_edge_to_set_full)

lemma canon_sym: "canon a b = canon b a"
  by (simp add: canon_def min.commute max.commute)

lemma take_Suc_update:
  assumes "n < length xs"
  shows "take (Suc n) (xs[n := x]) = take n xs @ [x]"
  using assms by (simp add: take_Suc_conv_app_nth)

lemma edge_set_ok_fresh: "edge_set_ok fresh_edge_set 0"
  by (simp add: edge_set_ok_def fresh_edge_set_def MAX_EDGE_SET_def)

lemma edge_set_ok_add:
  assumes ok: "edge_set_ok es cnt" and room: "cnt < MAX_EDGE_SET"
  shows "\<exists>es' cnt'. add_edge_to_set es cnt a b = Inr (True, es', cnt')
           \<and> edge_set_ok es' cnt' \<and> canon a b \<in> set (take (nat cnt') es')"
proof -
  from ok have len: "int (length es) = MAX_EDGE_SET" and c: "0 \<le> cnt" "cnt \<le> MAX_EDGE_SET"
    and can: "list_all (\<lambda>e. v1 e \<le> v2 e) (take (nat cnt) es)"
    and dis: "distinct (take (nat cnt) es)"
    by (simp_all add: edge_set_ok_def)
  show ?thesis
  proof (cases "canon a b \<in> set (take (nat cnt) es)")
    case True
    with room ok show ?thesis by (simp add: add_edge_to_set_eq [OF len c(1)])
  next
    case False
    have n: "nat cnt < length es" using room len c by simp
    have t: "take (nat (cnt + 1)) (es[nat cnt := canon a b]) = take (nat cnt) es @ [canon a b]"
      using take_Suc_update [OF n, of "canon a b"] c(1) by (simp add: nat_add_distrib)
    have "edge_set_ok (es[nat cnt := canon a b]) (cnt + 1)"
      using len c room can dis False unfolding edge_set_ok_def t
      by (simp add: canon_def)
    moreover have "canon a b \<in> set (take (nat (cnt + 1)) (es[nat cnt := canon a b]))"
      unfolding t by simp
    ultimately show ?thesis using False room by (simp add: add_edge_to_set_eq [OF len c(1)])
  qed
qed

lemma add_present:
  assumes ok: "edge_set_ok es cnt" and "canon a b \<in> set (take (nat cnt) es)"
  shows "\<exists>r. add_edge_to_set es cnt a b = Inr (r, es, cnt)"
  using assms by (auto simp: edge_set_ok_def add_edge_to_set_eq)

lemma entries_for_subset:
  assumes ok: "edge_set_ok es cnt"
  shows "{e. (v1 e = a \<and> v2 e = b) \<or> (v1 e = b \<and> v2 e = a)} \<inter> set (take (nat cnt) es)
           \<subseteq> {canon a b}"
proof
  fix e
  assume e: "e \<in> {e. (v1 e = a \<and> v2 e = b) \<or> (v1 e = b \<and> v2 e = a)}
                 \<inter> set (take (nat cnt) es)"
  from ok have "\<forall>e\<in>set (take (nat cnt) es). v1 e \<le> v2 e"
    by (simp add: edge_set_ok_def list_all_iff)
  with e have "(v1 e = a \<and> v2 e = b) \<or> (v1 e = b \<and> v2 e = a)" "v1 e \<le> v2 e" by auto
  then have "e = canon a b" by (auto simp: canon_def edge_eq_iff min_def max_def)
  then show "e \<in> {canon a b}" by simp
qed

lemma entries_for_le_one:
  assumes ok: "edge_set_ok es cnt"
  shows "entries_for es cnt a b \<le> 1"
proof -
  from ok have dis: "distinct (take (nat cnt) es)" by (simp add: edge_set_ok_def)
  have "card ({e. (v1 e = a \<and> v2 e = b) \<or> (v1 e = b \<and> v2 e = a)}
                \<inter> set (take (nat cnt) es)) \<le> card {canon a b}"
    by (rule card_mono [OF _ entries_for_subset [OF ok]]) simp
  with dis show ?thesis by (simp add: entries_for_def distinct_length_filter)
qed

lemma entries_for_one:
  assumes ok: "edge_set_ok es cnt" and "canon a b \<in> set (take (nat cnt) es)"
  shows "entries_for es cnt a b = 1"
proof -
  from ok have dis: "distinct (take (nat cnt) es)" by (simp add: edge_set_ok_def)
  have "canon a b \<in> {e. (v1 e = a \<and> v2 e = b) \<or> (v1 e = b \<and> v2 e = a)}
                      \<inter> set (take (nat cnt) es)"
    using assms(2) by (auto simp: canon_def min_def max_def)
  with entries_for_subset [OF ok, of a b]
  have "{e. (v1 e = a \<and> v2 e = b) \<or> (v1 e = b \<and> v2 e = a)} \<inter> set (take (nat cnt) es)
      = {canon a b}"
    by blast
  then have "card ({e. (v1 e = a \<and> v2 e = b) \<or> (v1 e = b \<and> v2 e = a)}
                     \<inter> set (take (nat cnt) es)) = 1"
    by simp
  with dis show ?thesis by (simp add: entries_for_def distinct_length_filter)
qed

text \<open>Every set a sequence of insertions builds from the fresh one is well formed.\<close>

lemma edge_set_ok_add_edges:
  "edge_set_ok es cnt \<Longrightarrow> add_edges es cnt ps = Inr (es', cnt') \<Longrightarrow> edge_set_ok es' cnt'"
proof (induction ps arbitrary: es cnt)
  case Nil
  then show ?case by simp
next
  case (Cons p ps)
  obtain a b where p: "p = (a, b)" by (cases p)
  show ?case
  proof (cases "cnt < MAX_EDGE_SET")
    case True
    from edge_set_ok_add [OF Cons.prems(1) True, of a b] obtain es1 cnt1 where
      "add_edge_to_set es cnt a b = Inr (True, es1, cnt1)" "edge_set_ok es1 cnt1"
      by blast
    with Cons.prems(2) p Cons.IH [of es1 cnt1] show ?thesis by simp
  next
    case False
    with Cons.prems(1) have "cnt = MAX_EDGE_SET" by (simp add: edge_set_ok_def)
    with Cons.prems p Cons.IH [of es cnt] show ?thesis
      by (simp add: add_edge_to_set_full)
  qed
qed

text \<open>
  C2. On a well-formed set, inserting the pair as \<open>(a, b)\<close> or as \<open>(b, a)\<close> gives the same
  result, and inserting it a second time, in either order, changes nothing. The set then
  holds at most one entry for the pair; when the set was not full before the first
  insertion, the insertion succeeds and the set holds exactly one entry for the pair,
  the canonical one with the smaller index first.
\<close>

theorem add_edge_twice_one_entry:
  assumes "edge_set_ok es cnt"
  shows "\<exists>r es' cnt'. add_edge_to_set es cnt a b = Inr (r, es', cnt')
           \<and> add_edge_to_set es cnt b a = Inr (r, es', cnt')
           \<and> add_edges es cnt [(a, b), (a, b)] = Inr (es', cnt')
           \<and> add_edges es cnt [(a, b), (b, a)] = Inr (es', cnt')
           \<and> add_edges es cnt [(b, a), (a, b)] = Inr (es', cnt')
           \<and> edge_set_ok es' cnt'
           \<and> entries_for es' cnt' a b \<le> 1
           \<and> (cnt < MAX_EDGE_SET \<longrightarrow>
                r \<and> entries_for es' cnt' a b = 1
              \<and> canon a b \<in> set (take (nat cnt') es'))
           \<and> v1 (canon a b) = min a b \<and> v2 (canon a b) = max a b"
proof (cases "cnt < MAX_EDGE_SET")
  case True
  from edge_set_ok_add [OF assms True, of a b] obtain es' cnt' where
    f: "add_edge_to_set es cnt a b = Inr (True, es', cnt')"
    and ok': "edge_set_ok es' cnt'" and m: "canon a b \<in> set (take (nat cnt') es')"
    by blast
  from assms have len: "int (length es) = MAX_EDGE_SET" "0 \<le> cnt"
    by (simp_all add: edge_set_ok_def)
  have "add_edge_to_set es cnt b a = add_edge_to_set es cnt a b"
    by (simp add: add_edge_to_set_eq [OF len] canon_sym [of b a])
  with f have g: "add_edge_to_set es cnt b a = Inr (True, es', cnt')" by simp
  from add_present [OF ok' m] obtain r1 where
    s1: "add_edge_to_set es' cnt' a b = Inr (r1, es', cnt')"
    by blast
  from m have "canon b a \<in> set (take (nat cnt') es')" by (simp add: canon_sym [of b a])
  from add_present [OF ok' this] obtain r2 where
    s2: "add_edge_to_set es' cnt' b a = Inr (r2, es', cnt')"
    by blast
  from f g s1 s2 entries_for_one [OF ok' m] ok' m True show ?thesis
    by (intro exI [of _ True] exI [of _ es'] exI [of _ cnt']) (simp add: canon_def)
next
  case False
  with assms have full: "cnt = MAX_EDGE_SET" by (simp add: edge_set_ok_def)
  from full assms entries_for_le_one [OF assms, of a b] show ?thesis
    by (intro exI [of _ False] exI [of _ es] exI [of _ cnt])
      (simp add: add_edge_to_set_full canon_def)
qed

text \<open>The pair 5, 2 inserted into the fresh set in both orders.\<close>

theorem add_edge_twice_one_entry_witness:
  "\<exists>es' cnt'. add_edges fresh_edge_set 0 [(5, 2), (2, 5)] = Inr (es', cnt')
      \<and> add_edge_to_set fresh_edge_set 0 5 2 = Inr (True, es', cnt')
      \<and> add_edge_to_set fresh_edge_set 0 2 5 = Inr (True, es', cnt')
      \<and> entries_for es' cnt' 5 2 = 1"
proof -
  have room: "(0::int) < MAX_EDGE_SET" by (simp add: MAX_EDGE_SET_def)
  from add_edge_twice_one_entry [OF edge_set_ok_fresh, of 5 2] obtain r es' cnt' where
    a: "add_edge_to_set fresh_edge_set 0 5 2 = Inr (r, es', cnt')"
    and b: "add_edge_to_set fresh_edge_set 0 2 5 = Inr (r, es', cnt')"
    and c: "add_edges fresh_edge_set 0 [(5, 2), (2, 5)] = Inr (es', cnt')"
    and d: "0 < MAX_EDGE_SET \<longrightarrow> r \<and> entries_for es' cnt' 5 2 = 1"
    by blast
  from d room have "r" "entries_for es' cnt' 5 2 = 1" by simp_all
  with a b c show ?thesis by simp
qed

text \<open>
  C3. From an array of \<open>MAX_EDGE_SET\<close> = 256 entries and a count within it, every sequence
  of insertions ends without a fault with a count that has not decreased and is at most
  256, with the array still 256 long and the entries that were in use unchanged. Once
  the count is 256, every further insertion returns false and leaves array and count as
  they are.
\<close>

theorem edge_set_never_exceeds_capacity:
  assumes "int (length es) = MAX_EDGE_SET" "0 \<le> cnt" "cnt \<le> MAX_EDGE_SET"
  shows "\<exists>es' cnt'. add_edges es cnt ps = Inr (es', cnt')
           \<and> cnt \<le> cnt' \<and> cnt' \<le> MAX_EDGE_SET \<and> MAX_EDGE_SET = 256
           \<and> length es' = length es
           \<and> take (nat cnt) es' = take (nat cnt) es
           \<and> (cnt' = MAX_EDGE_SET \<longrightarrow>
                 add_edge_to_set es' cnt' a b = Inr (False, es', cnt')
               \<and> add_edges es' cnt' qs = Inr (es', cnt'))"
proof -
  from add_edges_bounded [OF assms, of ps] obtain es' cnt' where
    r: "add_edges es cnt ps = Inr (es', cnt')"
    and b: "cnt \<le> cnt'" "cnt' \<le> MAX_EDGE_SET" "length es' = length es"
      "take (nat cnt) es' = take (nat cnt) es"
    by blast
  have "cnt' = MAX_EDGE_SET \<longrightarrow>
          add_edge_to_set es' cnt' a b = Inr (False, es', cnt')
        \<and> add_edges es' cnt' qs = Inr (es', cnt')"
    using add_edge_to_set_full add_edges_full by simp
  with r b show ?thesis by (simp add: MAX_EDGE_SET_def)
qed

text \<open>
  A full set drops the pair 1, 2 and the pair 3, 4; three insertions into the fresh set
  stay within the capacity.
\<close>

theorem edge_set_never_exceeds_capacity_witness:
  "add_edges fresh_edge_set 256 [(1, 2)] = Inr (fresh_edge_set, 256)
   \<and> add_edge_to_set fresh_edge_set 256 3 4 = Inr (False, fresh_edge_set, 256)
   \<and> (\<exists>es' cnt'. add_edges fresh_edge_set 0 [(1, 2), (2, 1), (3, 1)] = Inr (es', cnt')
          \<and> cnt' \<le> 256)"
proof -
  have l: "int (length fresh_edge_set) = MAX_EDGE_SET"
    by (simp add: fresh_edge_set_def MAX_EDGE_SET_def)
  have b: "(0::int) \<le> 256" "(256::int) \<le> MAX_EDGE_SET" "(0::int) \<le> 0"
    "(0::int) \<le> MAX_EDGE_SET"
    by (simp_all add: MAX_EDGE_SET_def)
  from edge_set_never_exceeds_capacity [OF l b(1,2), of "[(1, 2)]" 3 4 "[]"]
  obtain es' cnt' where
    r: "add_edges fresh_edge_set 256 [(1, 2)] = Inr (es', cnt')"
    and c: "256 \<le> cnt'" "cnt' \<le> MAX_EDGE_SET" "length es' = length fresh_edge_set"
      "take (nat 256) es' = take (nat 256) fresh_edge_set"
    and f: "cnt' = MAX_EDGE_SET \<longrightarrow> add_edge_to_set es' cnt' 3 4 = Inr (False, es', cnt')"
    by blast
  from c have cnt': "cnt' = 256" by (simp add: MAX_EDGE_SET_def)
  from c(3,4) l have es': "es' = fresh_edge_set" by (simp add: MAX_EDGE_SET_def)
  from edge_set_never_exceeds_capacity [OF l b(3,4), of "[(1, 2), (2, 1), (3, 1)]" 0 0 "[]"]
  have "\<exists>es' cnt'. add_edges fresh_edge_set 0 [(1, 2), (2, 1), (3, 1)] = Inr (es', cnt')
      \<and> cnt' \<le> 256"
    by (auto simp: MAX_EDGE_SET_def)
  with r f cnt' es' show ?thesis by (simp add: MAX_EDGE_SET_def)
qed

subsection \<open>Visibility of a face\<close>

lemma sint_exact:
  fixes a b :: "32 word"
  shows "- (2 ^ 31) \<le> sint a - sint b \<Longrightarrow> sint a - sint b < 2 ^ 31
           \<Longrightarrow> sint (a - b) = sint a - sint b"
    and "- (2 ^ 31) \<le> sint a * sint b \<Longrightarrow> sint a * sint b < 2 ^ 31
           \<Longrightarrow> sint (a * b) = sint a * sint b"
  by (simp_all add: sint_word_ariths signed_take_bit_int_eq_self)

lemma prod_bound:
  fixes a b :: int
  assumes "\<bar>a\<bar> \<le> 32766" "\<bar>b\<bar> \<le> 32766"
  shows "\<bar>a * b\<bar> \<le> 1073610756"
proof -
  have "\<bar>a\<bar> * \<bar>b\<bar> \<le> 32766 * 32766"
    using assms by (intro mult_mono) simp_all
  then show ?thesis by (simp add: abs_mult)
qed

text \<open>
  With all six coordinates within 16383 of zero, the 32-bit computation of
  \<open>is_face_visible_debug\<close> does not overflow: the value it stores is the cross product.
\<close>

lemma cross_exact:
  assumes "coord_ok x0" "coord_ok y0" "coord_ok x1" "coord_ok y1" "coord_ok x2" "coord_ok y2"
  shows "sint (snd (is_face_visible_debug x0 y0 x1 y1 x2 y2))
           = cross2d (sint x0) (sint y0) (sint x1) (sint y1) (sint x2) (sint y2)"
proof -
  have d: "sint (x1 - x0) = sint x1 - sint x0" "sint (y2 - y0) = sint y2 - sint y0"
    "sint (y1 - y0) = sint y1 - sint y0" "sint (x2 - x0) = sint x2 - sint x0"
    using assms by (simp_all add: coord_ok_def sint_exact(1))
  have b: "\<bar>sint x1 - sint x0\<bar> \<le> 32766" "\<bar>sint y2 - sint y0\<bar> \<le> 32766"
    "\<bar>sint y1 - sint y0\<bar> \<le> 32766" "\<bar>sint x2 - sint x0\<bar> \<le> 32766"
    using assms unfolding coord_ok_def by linarith+
  note p1 = prod_bound [OF b(1) b(2)]
  note p2 = prod_bound [OF b(3) b(4)]
  have m1: "sint ((x1 - x0) * (y2 - y0)) = (sint x1 - sint x0) * (sint y2 - sint y0)"
    using p1 by (subst sint_exact(2)) (simp_all add: d abs_le_iff)
  have m2: "sint ((y1 - y0) * (x2 - x0)) = (sint y1 - sint y0) * (sint x2 - sint x0)"
    using p2 by (subst sint_exact(2)) (simp_all add: d abs_le_iff)
  have "sint ((x1 - x0) * (y2 - y0) - (y1 - y0) * (x2 - x0))
      = (sint x1 - sint x0) * (sint y2 - sint y0) - (sint y1 - sint y0) * (sint x2 - sint x0)"
    using p1 p2 by (subst sint_exact(1)) (simp_all add: m1 m2 abs_le_iff)
  then show ?thesis by (simp add: is_face_visible_debug_def cross2d_def Let_def)
qed

lemma visible_iff_machine_cross:
  "fst (is_face_visible_debug x0 y0 x1 y1 x2 y2)
     \<longleftrightarrow> 0 < sint (snd (is_face_visible_debug x0 y0 x1 y1 x2 y2))"
  by (simp add: is_face_visible_debug_def Let_def)

text \<open>
  Over the whole face loop: an iteration either counts the face as visible or leaves the
  edge set as it is, so a loop that counts no visible face leaves the edge set as it is.
\<close>

lemma cull_face_cases:
  assumes "cull_face p sc st face_idx = Inr st'"
  shows "visible_faces st' = visible_faces st + 1
         \<or> (visible_faces st' = visible_faces st \<and> visible_edges st' = visible_edges st
             \<and> visible_edge_count st' = visible_edge_count st)"
  using assms by (auto simp: cull_face_def Let_def split: sum.splits if_splits)

lemma cull_faces_visible_mono:
  "cull_faces p sc st face_idx = Inr st' \<Longrightarrow> visible_faces st \<le> visible_faces st'"
proof (induction p sc st face_idx arbitrary: st' rule: cull_faces.induct)
  case (1 p sc st face_idx)
  show ?case
  proof (cases "face_idx < face_count p")
    case False
    with "1.prems" show ?thesis by (subst (asm) cull_faces.simps) simp
  next
    case True
    with "1.prems" obtain st1 where
      f: "cull_face p sc st face_idx = Inr st1"
      and r: "cull_faces p sc st1 (face_idx + 1) = Inr st'"
      by (subst (asm) cull_faces.simps) (auto split: sum.splits)
    from cull_face_cases [OF f] have "visible_faces st \<le> visible_faces st1" by auto
    with "1.IH" [OF True f r] show ?thesis by simp
  qed
qed

lemma cull_faces_none_visible:
  "cull_faces p sc st face_idx = Inr st' \<Longrightarrow> visible_faces st' = visible_faces st
     \<Longrightarrow> visible_edges st' = visible_edges st \<and> visible_edge_count st' = visible_edge_count st"
proof (induction p sc st face_idx arbitrary: st' rule: cull_faces.induct)
  case (1 p sc st face_idx)
  show ?case
  proof (cases "face_idx < face_count p")
    case False
    with "1.prems" show ?thesis by (subst (asm) cull_faces.simps) simp
  next
    case True
    with "1.prems"(1) obtain st1 where
      f: "cull_face p sc st face_idx = Inr st1"
      and r: "cull_faces p sc st1 (face_idx + 1) = Inr st'"
      by (subst (asm) cull_faces.simps) (auto split: sum.splits)
    from cull_face_cases [OF f] have le: "visible_faces st \<le> visible_faces st1" by auto
    from cull_faces_visible_mono [OF r] have "visible_faces st1 \<le> visible_faces st'" .
    with le "1.prems"(2) have eq: "visible_faces st1 = visible_faces st"
      "visible_faces st' = visible_faces st1" by simp_all
    from cull_face_cases [OF f] eq(1) have "visible_edges st1 = visible_edges st"
      "visible_edge_count st1 = visible_edge_count st" by auto
    with "1.IH" [OF True f r eq(2)] show ?thesis by simp
  qed
qed

text \<open>
  C1. Take a face whose count and whose first three vertices' screen coordinates the
  face loop reads, the coordinates within 16383 of zero. The face is classified visible
  exactly when the cross product of its first three screen points is strictly positive
  (and, whatever the coordinates, exactly when the 32-bit value computed for it is).
  When the cross product is zero or negative, the iteration only counts the face and
  moves to the next one: the visible edge set, its count and the number of visible
  faces are as before. When it is positive, the iteration counts the face as visible and
  the edge set it leaves is the one the walk round the face's loop builds.
\<close>

theorem face_visible_iff_cross_positive:
  assumes "face_triangle (face_vertices p) sc (face_vert_idx st)
             = Inr ((x0, y0), (x1, y1), (x2, y2))"
    and "rd (face_vertex_counts p) face_idx = Inr fvc"
    and "coord_ok x0" "coord_ok y0" "coord_ok x1" "coord_ok y1" "coord_ok x2" "coord_ok y2"
  shows "(fst (is_face_visible_debug x0 y0 x1 y1 x2 y2)
            \<longleftrightarrow> 0 < cross2d (sint x0) (sint y0) (sint x1) (sint y1) (sint x2) (sint y2))
       \<and> (fst (is_face_visible_debug x0 y0 x1 y1 x2 y2)
            \<longleftrightarrow> 0 < sint (snd (is_face_visible_debug x0 y0 x1 y1 x2 y2)))
       \<and> (\<not> 0 < cross2d (sint x0) (sint y0) (sint x1) (sint y1) (sint x2) (sint y2) \<longrightarrow>
            cull_face p sc st face_idx
              = Inr (st\<lparr>total_faces_checked := total_faces_checked st + 1,
                        face_vert_idx := face_vert_idx st + fvc\<rparr>))
       \<and> (0 < cross2d (sint x0) (sint y0) (sint x1) (sint y1) (sint x2) (sint y2) \<longrightarrow>
            (\<forall>st'. cull_face p sc st face_idx = Inr st' \<longrightarrow>
               add_face_edges (face_vertices p) (face_vert_idx st) fvc
                   (visible_edges st) (visible_edge_count st) 0
                 = Inr (visible_edges st', visible_edge_count st')
             \<and> visible_faces st' = visible_faces st + 1
             \<and> total_faces_checked st' = total_faces_checked st + 1
             \<and> face_vert_idx st' = face_vert_idx st + fvc))"
proof -
  let ?c = "cross2d (sint x0) (sint y0) (sint x1) (sint y1) (sint x2) (sint y2)"
  note tri = assms(1) and cnt = assms(2)
  have v: "fst (is_face_visible_debug x0 y0 x1 y1 x2 y2) \<longleftrightarrow> 0 < ?c"
    using visible_iff_machine_cross [of x0 y0 x1 y1 x2 y2] cross_exact [OF assms(3-8)] by simp
  have inv: "cull_face p sc st face_idx
              = Inr (st\<lparr>total_faces_checked := total_faces_checked st + 1,
                        face_vert_idx := face_vert_idx st + fvc\<rparr>)" if "\<not> 0 < ?c"
    using that v tri cnt by (simp add: cull_face_def Let_def)
  have vis: "add_face_edges (face_vertices p) (face_vert_idx st) fvc
                   (visible_edges st) (visible_edge_count st) 0
                 = Inr (visible_edges st', visible_edge_count st')
             \<and> visible_faces st' = visible_faces st + 1
             \<and> total_faces_checked st' = total_faces_checked st + 1
             \<and> face_vert_idx st' = face_vert_idx st + fvc"
    if "0 < ?c" "cull_face p sc st face_idx = Inr st'" for st'
    using that v tri cnt by (auto simp: cull_face_def Let_def split: sum.splits)
  from v inv vis visible_iff_machine_cross [of x0 y0 x1 y1 x2 y2] show ?thesis by blast
qed

text \<open>
  The triangle seen edge-on (three collinear screen points) adds nothing; seen from the
  front (cross product 576) it is visible and adds its three edges.
\<close>

theorem face_visible_iff_cross_positive_witness:
  "cull_face tri_mesh [0, 0, 24, 0, 48, 0] cull_start 0
     = Inr (cull_start\<lparr>total_faces_checked := 1, face_vert_idx := 3\<rparr>)
   \<and> \<not> fst (is_face_visible_debug 0 0 24 0 48 0)
   \<and> fst (is_face_visible_debug 0 0 24 0 0 24)
   \<and> (\<exists>st'. cull_face tri_mesh [0, 0, 24, 0, 0, 24] cull_start 0 = Inr st'
          \<and> visible_faces st' = 1 \<and> visible_edge_count st' = 3)"
proof -
  have t0: "face_triangle (face_vertices tri_mesh) [0, 0, 24, 0, 48, 0] (face_vert_idx cull_start)
      = Inr ((0, 0), (24, 0), (48, 0))"
    by (simp add: face_triangle_def rd_def tri_mesh_def cull_start_def)
  have t1: "face_triangle (face_vertices tri_mesh) [0, 0, 24, 0, 0, 24] (face_vert_idx cull_start)
      = Inr ((0, 0), (24, 0), (0, 24))"
    by (simp add: face_triangle_def rd_def tri_mesh_def cull_start_def)
  have n: "rd (face_vertex_counts tri_mesh) 0 = Inr 3"
    by (simp add: rd_def tri_mesh_def)
  have ok: "coord_ok 0" "coord_ok 24" "coord_ok 48"
    by (simp_all add: coord_ok_def)
  have x0: "cross2d (sint (0::32 word)) (sint (0::32 word)) (sint (24::32 word))
      (sint (0::32 word)) (sint (48::32 word)) (sint (0::32 word)) = 0"
    by (simp add: cross2d_def)
  have x1: "cross2d (sint (0::32 word)) (sint (0::32 word)) (sint (24::32 word))
      (sint (0::32 word)) (sint (0::32 word)) (sint (24::32 word)) = 576"
    by (simp add: cross2d_def)
  from face_visible_iff_cross_positive [OF t0 n ok(1) ok(1) ok(2) ok(1) ok(3) ok(1)] x0
  have a: "cull_face tri_mesh [0, 0, 24, 0, 48, 0] cull_start 0
     = Inr (cull_start\<lparr>total_faces_checked := 1, face_vert_idx := 3\<rparr>)
   \<and> \<not> fst (is_face_visible_debug 0 0 24 0 48 0)"
    by (simp add: cull_start_def)
  have e: "\<exists>st'. cull_face tri_mesh [0, 0, 24, 0, 0, 24] cull_start 0 = Inr st'
      \<and> visible_edge_count st' = 3"
    by (simp add: cull_face_def face_triangle_def rd_def wr_def tri_mesh_def cull_start_def
        is_face_visible_debug_def add_face_edges.simps add_edge_to_set_def edge_scan.simps
        fresh_edge_set_def MAX_EDGE_SET_def c_mod_def Let_def)
  then obtain st' where s: "cull_face tri_mesh [0, 0, 24, 0, 0, 24] cull_start 0 = Inr st'"
    and k: "visible_edge_count st' = 3" by blast
  from face_visible_iff_cross_positive [OF t1 n ok(1) ok(1) ok(2) ok(1) ok(1) ok(2)] x1 s
  have b: "fst (is_face_visible_debug 0 0 24 0 0 24) \<and> visible_faces st' = 1"
    by (simp add: cull_start_def)
  from a b s k show ?thesis by blast
qed

subsection \<open>The renderer without culling\<close>

lemma read_vertex_ok:
  assumes "int (length verts) = n * 3" "0 \<le> i" "i < n"
  shows "read_vertex verts i
           = Inr (verts ! nat (i * 3), verts ! nat (i * 3 + 1), verts ! nat (i * 3 + 2))"
  using assms by (simp add: read_vertex_def rd_def)

lemma draw_all_edges_from:
  "edge_list_ok p \<Longrightarrow> 0 \<le> i \<Longrightarrow> draw_all_edges pr p opacity i n
     = (map (edge_event pr p opacity) [i..edge_count p - 1],
        Inr (n + int (length (filter (edge_in_range p) [i..edge_count p - 1]))))"
proof (induction pr p opacity i n rule: draw_all_edges.induct)
  case (1 pr p opacity i n)
  note ok = "1.prems"(1) and i0 = "1.prems"(2)
  show ?case
  proof (cases "i < edge_count p")
    case False
    then have "[i..edge_count p - 1] = []" by simp
    with False show ?thesis by (subst draw_all_edges.simps) simp
  next
    case True
    let ?a = "edges p ! nat (i * 2)" and ?b = "edges p ! nat (i * 2 + 1)"
    from ok have len: "int (length (edges p)) = edge_count p * 2"
      and vlen: "int (length (vertices p)) = vertex_count p * 3"
      and nn: "\<forall>v\<in>set (edges p). 0 \<le> v"
      by (simp_all add: edge_list_ok_def list_all_iff)
    from True i0 len have ra: "rd (edges p) (i * 2) = Inr ?a"
      and rb: "rd (edges p) (i * 2 + 1) = Inr ?b"
      by (simp_all add: rd_def)
    from True i0 len have "nat (i * 2) < length (edges p)" "nat (i * 2 + 1) < length (edges p)"
      by simp_all
    with nn have a0: "0 \<le> ?a" and b0: "0 \<le> ?b" by simp_all
    have up: "[i..edge_count p - 1] = i # [i + 1..edge_count p - 1]"
      using True by (simp add: upto_rec1)
    show ?thesis
    proof (cases "invalid_vertex_index p ?a ?b")
      case inv: True
      have ih: "draw_all_edges pr p opacity (i + 1) n
         = (map (edge_event pr p opacity) [i + 1..edge_count p - 1],
            Inr (n + int (length (filter (edge_in_range p) [i + 1..edge_count p - 1]))))"
        using "1.IH"(1) [OF True ra rb inv ok] i0 by simp
      have step: "draw_all_edges pr p opacity i n
          = (case draw_all_edges pr p opacity (i + 1) n of (evs, r) \<Rightarrow>
              (Invalid_vertex_index i ?a ?b (vertex_count p) (name p) # evs, r))"
        by (subst draw_all_edges.simps) (simp add: True ra rb inv)
      have "\<not> edge_in_range p i"
        and "edge_event pr p opacity i = Invalid_vertex_index i ?a ?b (vertex_count p) (name p)"
        using inv by (simp_all add: edge_event_def edge_in_range_def Let_def)
      then show ?thesis unfolding step ih up by simp
    next
      case val: False
      then have lt: "?a < vertex_count p" "?b < vertex_count p"
        by (simp_all add: invalid_vertex_index_def)
      have va: "read_vertex (vertices p) ?a = Inr (vertex_at p ?a)"
        and vb: "read_vertex (vertices p) ?b = Inr (vertex_at p ?b)"
        using read_vertex_ok [OF vlen a0 lt(1)] read_vertex_ok [OF vlen b0 lt(2)]
        by (simp_all add: vertex_at_def)
      have ih: "draw_all_edges pr p opacity (i + 1) (n + 1)
         = (map (edge_event pr p opacity) [i + 1..edge_count p - 1],
            Inr (n + 1 + int (length (filter (edge_in_range p) [i + 1..edge_count p - 1]))))"
        using "1.IH"(2) [OF True ra rb val va vb ok] i0 by simp
      have step: "draw_all_edges pr p opacity i n
          = (case draw_all_edges pr p opacity (i + 1) (n + 1) of (evs, r) \<Rightarrow>
              (Draw_line \<lparr>line_x1 = fst (pr (vertex_at p ?a)), line_y1 = snd (pr (vertex_at p ?a)),
                      line_x2 = fst (pr (vertex_at p ?b)), line_y2 = snd (pr (vertex_at p ?b)),
                      line_opa = opacity\<rparr> # evs, r))"
        by (subst draw_all_edges.simps) (simp add: True ra rb val va vb)
      have "edge_in_range p i"
        and "edge_event pr p opacity i
          = Draw_line \<lparr>line_x1 = fst (pr (vertex_at p ?a)), line_y1 = snd (pr (vertex_at p ?a)),
                      line_x2 = fst (pr (vertex_at p ?b)), line_y2 = snd (pr (vertex_at p ?b)),
                      line_opa = opacity\<rparr>"
        using val by (simp_all add: edge_event_def edge_in_range_def Let_def)
      then show ?thesis unfolding step ih up by simp
    qed
  qed
qed

text \<open>
  C7. On a mesh whose arrays have the sizes its counts announce and whose edge indices
  are not negative, the edge loop of the renderer without culling ends without a fault.
  It emits one event for each edge, in order: for an edge with an index at or beyond the
  vertex count (an index equal to the count included) the error message and no line, for
  every other edge its line, wherever it stands among the rejected ones. The number of
  lines drawn is the number of edges that pass the check.
\<close>

theorem invalid_edges_skipped_rest_drawn:
  assumes "edge_list_ok p"
  shows "draw_all_edges pr p opacity 0 0
     = (map (edge_event pr p opacity) [0..edge_count p - 1],
        Inr (int (length (filter (edge_in_range p) [0..edge_count p - 1]))))"
  using draw_all_edges_from [OF assms, of 0 pr opacity 0] by simp

text \<open>
  Two vertices, the first edge naming index 2: it is reported and skipped, and the
  second edge is drawn.
\<close>

theorem invalid_edges_skipped_rest_drawn_witness:
  "draw_all_edges (flat_proj initial_state) off_by_one_mesh 255 0 0
     = ([Invalid_vertex_index 0 0 2 2 ''O'',
         Draw_line \<lparr>line_x1 = 0, line_y1 = 0, line_x2 = 8, line_y2 = 0, line_opa = 255\<rparr>],
        Inr 1)"
proof -
  have ok: "edge_list_ok off_by_one_mesh"
    by (simp add: edge_list_ok_def off_by_one_mesh_def)
  have u: "[0..edge_count off_by_one_mesh - 1] = [0, 1]"
    by (simp add: off_by_one_mesh_def upto_rec1)
  from invalid_edges_skipped_rest_drawn [OF ok, of "flat_proj initial_state" 255] show ?thesis
    unfolding u
    by (simp add: edge_event_def edge_in_range_def invalid_vertex_index_def vertex_at_def
        off_by_one_mesh_def flat_proj_def Let_def)
qed

text \<open>
  C10. The bounds check rejects an edge exactly when one of its indices is at or beyond
  the vertex count. The edge (-1, 0) of a mesh with one vertex passes the check; the loop
  then reads vertex -1, outside the vertex array.
\<close>

theorem bounds_check_admits_negative_index:
  "(invalid_vertex_index p a b \<longleftrightarrow> a \<ge> vertex_count p \<or> b \<ge> vertex_count p)
   \<and> \<not> invalid_vertex_index neg_mesh (- 1) 0
   \<and> read_vertex (vertices neg_mesh) (- 1) = Inl Out_of_bounds
   \<and> draw_all_edges pr neg_mesh opacity 0 0 = ([], Inl Out_of_bounds)"
  by (simp add: invalid_vertex_index_def neg_mesh_def read_vertex_def rd_def
      draw_all_edges.simps)

end
